theory Spec2Isabelle
  imports Complex_Main "HOL-Library.Sublist"
begin

section \<open>JavaScript values used by the request-defence modules\<close>

text \<open>
  Strings are lists of code units, and a \<^typ>\<open>char\<close> stands for one code unit below 256:
  header values reach the server decoded as Latin-1, and strings with other code units are
  outside the model. Times are the integer milliseconds of \<^verbatim>\<open>Date.now()\<close>, read once per
  call; the other numbers of the modules are modelled as rationals. An absent property
  (\<^verbatim>\<open>undefined\<close>) is \<^const>\<open>None\<close>.
\<close>

text \<open>White space removed by \<^verbatim>\<open>String.prototype.trim\<close>, among the code units below 256:
  TAB, LF, VT, FF, CR, SPACE and NBSP.\<close>

definition js_whitespace :: "char \<Rightarrow> bool" where
  "js_whitespace c = (of_char c \<in> {9, 10, 11, 12, 13, 32, 160 :: nat})"

definition js_trim :: "string \<Rightarrow> string" where
  "js_trim s = rev (dropWhile js_whitespace (rev (dropWhile js_whitespace s)))"

text \<open>\<^verbatim>\<open>s.split(c)\<close> for a one-character separator: never the empty array.\<close>

fun js_split :: "char \<Rightarrow> string \<Rightarrow> string list" where
  "js_split c [] = [[]]"
| "js_split c (x # xs) =
     (if x = c then [] # js_split c xs
      else (case js_split c xs of [] \<Rightarrow> [[x]] | y # ys \<Rightarrow> (x # y) # ys))"

text \<open>\<^verbatim>\<open>a || b\<close> on values that are a string or undefined: the empty string is falsy.\<close>

definition truthy :: "string option \<Rightarrow> bool" where
  "truthy v = (case v of None \<Rightarrow> False | Some s \<Rightarrow> s \<noteq> [])"

definition js_or :: "string option \<Rightarrow> string option \<Rightarrow> string option" where
  "js_or a b = (if truthy a then a else b)"

text \<open>\<^verbatim>\<open>String.prototype.toLowerCase\<close> on code units below 256: the ASCII capitals (65..90)
  and the Latin-1 capitals (192..222 but the multiplication sign 215) move up by 32, which
  in both ranges sets the bit of weight 32.\<close>

definition js_lower_char :: "char \<Rightarrow> char" where
  "js_lower_char c =
     (let n = (of_char c :: nat)
      in if (65 \<le> n \<and> n \<le> 90) \<or> (192 \<le> n \<and> n \<le> 222 \<and> n \<noteq> 215)
         then (case c of Char b0 b1 b2 b3 b4 b5 b6 b7 \<Rightarrow> Char b0 b1 b2 b3 b4 True b6 b7)
         else c)"

definition toLowerCase :: "string \<Rightarrow> string" where
  "toLowerCase s = map js_lower_char s"

text \<open>\<^verbatim>\<open>s.includes(p)\<close>: \<open>p\<close> occurs in \<open>s\<close> as a contiguous run.\<close>

fun js_includes :: "string \<Rightarrow> string \<Rightarrow> bool" where
  "js_includes [] p = (p = [])"
| "js_includes (x # xs) p = (prefix p (x # xs) \<or> js_includes xs p)"

section \<open>Regular expressions\<close>

text \<open>
  The patterns of the modules use literals, character classes, sequence, alternation, the
  word boundary and \<^verbatim>\<open>*\<close>, \<^verbatim>\<open>+\<close>, \<^verbatim>\<open>*?\<close> applied to a single character class. Groups
  only group (no pattern refers back to one). Matching follows the backtracking order of the
  language: alternatives left to right, a greedy star longest first, a lazy star shortest
  first; \<^verbatim>\<open>test\<close> takes the leftmost start that matches.
\<close>

text \<open>Upper case on code units below 256, as the case-insensitive comparison needs it: every
  pattern character is ASCII, and no code unit from 128 on is made equal to an ASCII one.\<close>

definition js_upper_char :: "char \<Rightarrow> char" where
  "js_upper_char c =
     (let n = (of_char c :: nat)
      in if (97 \<le> n \<and> n \<le> 122) \<or> (224 \<le> n \<and> n \<le> 254 \<and> n \<noteq> 247)
         then (case c of Char b0 b1 b2 b3 b4 b5 b6 b7 \<Rightarrow> Char b0 b1 b2 b3 b4 False b6 b7)
         else c)"

text \<open>\<^verbatim>\<open>\w\<close> is \<^verbatim>\<open>[A-Za-z0-9_]\<close>; \<^verbatim>\<open>.\<close> is anything but a line terminator.\<close>

definition word_char :: "char \<Rightarrow> bool" where
  "word_char c =
     (let n = (of_char c :: nat)
      in (48 \<le> n \<and> n \<le> 57) \<or> (65 \<le> n \<and> n \<le> 90) \<or> n = 95 \<or> (97 \<le> n \<and> n \<le> 122))"

definition line_terminator :: "char \<Rightarrow> bool" where
  "line_terminator c = (of_char c \<in> {10, 13 :: nat})"

datatype cclass = CAny | CDot | CWord | CSpace | COneOf string | CRange char char
  | CUnion cclass cclass

fun in_class :: "cclass \<Rightarrow> char \<Rightarrow> bool" where
  "in_class CAny c = True"
| "in_class CDot c = (\<not> line_terminator c)"
| "in_class CWord c = word_char c"
| "in_class CSpace c = js_whitespace c"
| "in_class (COneOf cs) c = (c \<in> set cs)"
| "in_class (CRange lo hi) c = ((of_char lo :: nat) \<le> of_char c \<and> (of_char c :: nat) \<le> of_char hi)"
| "in_class (CUnion a b) c = (in_class a c \<or> in_class b c)"

text \<open>With the flag \<^verbatim>\<open>i\<close> (\<open>ic\<close>), a code unit matches when one of its case variants does.\<close>

definition class_matches :: "bool \<Rightarrow> cclass \<Rightarrow> char \<Rightarrow> bool" where
  "class_matches ic cl c =
     (in_class cl c \<or> (ic \<and> (in_class cl (js_upper_char c) \<or> in_class cl (js_lower_char c))))"

definition char_matches :: "bool \<Rightarrow> char \<Rightarrow> char \<Rightarrow> bool" where
  "char_matches ic p c = (if ic then js_upper_char p = js_upper_char c else p = c)"

datatype rx = Lit string | Cls cclass | Seq rx rx | Alt rx rx
  | Star cclass | StarLazy cclass | WordBoundary

abbreviation Plus :: "cclass \<Rightarrow> rx" where
  "Plus cl \<equiv> Seq (Cls cl) (Star cl)"

text \<open>A position in the input: the code unit before it (for the word boundary) and the rest.\<close>

type_synonym pos = "char option \<times> string"

fun lit_match :: "bool \<Rightarrow> string \<Rightarrow> pos \<Rightarrow> pos option" where
  "lit_match ic [] q = Some q"
| "lit_match ic (p # ps) (prev, []) = None"
| "lit_match ic (p # ps) (prev, c # cs) =
     (if char_matches ic p c then lit_match ic ps (Some c, cs) else None)"

fun star_greedy :: "bool \<Rightarrow> cclass \<Rightarrow> pos \<Rightarrow> (pos \<Rightarrow> 'r option) \<Rightarrow> 'r option" where
  "star_greedy ic cl (prev, []) k = k (prev, [])"
| "star_greedy ic cl (prev, c # cs) k =
     (if class_matches ic cl c
      then (case star_greedy ic cl (Some c, cs) k of Some r \<Rightarrow> Some r | None \<Rightarrow> k (prev, c # cs))
      else k (prev, c # cs))"

fun star_lazy :: "bool \<Rightarrow> cclass \<Rightarrow> pos \<Rightarrow> (pos \<Rightarrow> 'r option) \<Rightarrow> 'r option" where
  "star_lazy ic cl (prev, []) k = k (prev, [])"
| "star_lazy ic cl (prev, c # cs) k =
     (case k (prev, c # cs) of
        Some r \<Rightarrow> Some r
      | None \<Rightarrow> if class_matches ic cl c then star_lazy ic cl (Some c, cs) k else None)"

definition is_word_at :: "char option \<Rightarrow> bool" where
  "is_word_at c = (case c of None \<Rightarrow> False | Some x \<Rightarrow> word_char x)"

text \<open>Matching at a position, with the continuation \<open>k\<close> deciding what follows.\<close>

primrec rx_match :: "bool \<Rightarrow> rx \<Rightarrow> pos \<Rightarrow> (pos \<Rightarrow> 'r option) \<Rightarrow> 'r option" where
  "rx_match ic (Lit ps) q k = (case lit_match ic ps q of None \<Rightarrow> None | Some q' \<Rightarrow> k q')"
| "rx_match ic (Cls cl) q k =
     (case snd q of [] \<Rightarrow> None
      | c # cs \<Rightarrow> if class_matches ic cl c then k (Some c, cs) else None)"
| "rx_match ic (Seq a b) q k = rx_match ic a q (\<lambda>q'. rx_match ic b q' k)"
| "rx_match ic (Alt a b) q k =
     (case rx_match ic a q k of Some r \<Rightarrow> Some r | None \<Rightarrow> rx_match ic b q k)"
| "rx_match ic (Star cl) q k = star_greedy ic cl q k"
| "rx_match ic (StarLazy cl) q k = star_lazy ic cl q k"
| "rx_match ic WordBoundary q k =
     (if is_word_at (fst q) \<noteq> is_word_at (case snd q of [] \<Rightarrow> None | c # _ \<Rightarrow> Some c)
      then k q else None)"

text \<open>The leftmost match starting at a position or later: how many code units are left
  after the match.\<close>

fun rx_search :: "bool \<Rightarrow> rx \<Rightarrow> pos \<Rightarrow> nat option" where
  "rx_search ic r (prev, []) = rx_match ic r (prev, []) (\<lambda>q. Some (length (snd q)))"
| "rx_search ic r (prev, c # cs) =
     (case rx_match ic r (prev, c # cs) (\<lambda>q. Some (length (snd q))) of
        Some n \<Rightarrow> Some n
      | None \<Rightarrow> rx_search ic r (Some c, cs))"

text \<open>A regular expression object: the pattern, its flags and the mutable \<^verbatim>\<open>lastIndex\<close>.\<close>

record regexp =
  pattern :: rx
  ignoreCase :: bool
  global :: bool
  lastIndex :: nat

definition pos_at :: "string \<Rightarrow> nat \<Rightarrow> pos" where
  "pos_at s i = ((if i = 0 then None else Some (s ! (i - 1))), drop i s)"

text \<open>
  \<^verbatim>\<open>RegExp.prototype.test\<close>. A global expression starts at \<^verbatim>\<open>lastIndex\<close>, stores the
  end of the match there when it succeeds and 0 when it fails; an expression without the
  flag starts at 0 and keeps no state.
\<close>

definition regexp_test :: "regexp \<Rightarrow> string \<Rightarrow> regexp \<times> bool" where
  "regexp_test re s =
     (if global re
      then (if lastIndex re > length s then (re\<lparr>lastIndex := 0\<rparr>, False)
            else (case rx_search (ignoreCase re) (pattern re) (pos_at s (lastIndex re)) of
                    None \<Rightarrow> (re\<lparr>lastIndex := 0\<rparr>, False)
                  | Some n \<Rightarrow> (re\<lparr>lastIndex := length s - n\<rparr>, True)))
      else (re, rx_search (ignoreCase re) (pattern re) (None, s) \<noteq> None))"

text \<open>\<^verbatim>\<open>/.../i.test(s)\<close> on an expression without the global flag.\<close>

definition test_i :: "rx \<Rightarrow> string \<Rightarrow> bool" where
  "test_i r s = snd (regexp_test \<lparr>pattern = r, ignoreCase = True, global = False, lastIndex = 0\<rparr> s)"

section \<open>The request descriptor\<close>

record conn =
  remoteAddress :: "string option"

record request =
  headers :: "string \<rightharpoonup> string"
  path :: string
  "method" :: string
  connection :: "conn option"
  socket :: "conn option"

text \<open>\<^verbatim>\<open>req.connection?.remoteAddress\<close>\<close>

definition opt_remoteAddress :: "conn option \<Rightarrow> string option" where
  "opt_remoteAddress c = (case c of None \<Rightarrow> None | Some k \<Rightarrow> remoteAddress k)"

text \<open>\<^verbatim>\<open>req.headers['x-forwarded-for']?.split(',')[0]?.trim()\<close>\<close>

definition forwarded_first :: "request \<Rightarrow> string option" where
  "forwarded_first req =
     (case headers req ''x-forwarded-for'' of
        None \<Rightarrow> None
      | Some v \<Rightarrow> (case js_split CHR '','' v of [] \<Rightarrow> None | e # _ \<Rightarrow> Some (js_trim e)))"

text \<open>\<^verbatim>\<open>getIP\<close> of HoneyPot, BehaviorAnalyzer, ThreatDetector, BotDetector, ConnectionLimiter
  and TrafficShaper.\<close>

definition getIP :: "request \<Rightarrow> string" where
  "getIP req =
     (case js_or (forwarded_first req)
             (js_or (headers req ''x-real-ip'')
                (js_or (opt_remoteAddress (connection req)) (Some ''unknown''))) of
        None \<Rightarrow> ''unknown'' | Some s \<Rightarrow> s)"

text \<open>\<^verbatim>\<open>getIP\<close> of DDoSProtection and RequestFingerprint, which also try
  \<^verbatim>\<open>req.socket?.remoteAddress\<close>.\<close>

definition getIP_socket :: "request \<Rightarrow> string" where
  "getIP_socket req =
     (case js_or (forwarded_first req)
             (js_or (headers req ''x-real-ip'')
                (js_or (opt_remoteAddress (connection req))
                   (js_or (opt_remoteAddress (socket req)) (Some ''unknown'')))) of
        None \<Rightarrow> ''unknown'' | Some s \<Rightarrow> s)"

subsection \<open>The precedence rule as the specification words it\<close>

text \<open>The first candidate that is present and not empty, else the default.\<close>

fun first_nonempty :: "string option list \<Rightarrow> string \<Rightarrow> string" where
  "first_nonempty [] d = d"
| "first_nonempty (None # cs) d = first_nonempty cs d"
| "first_nonempty (Some s # cs) d = (if s = [] then first_nonempty cs d else s)"

text \<open>The first entry of a comma-separated chain, trimmed.\<close>

definition chain_first :: "string \<Rightarrow> string" where
  "chain_first v = js_trim (takeWhile (\<lambda>c. c \<noteq> CHR '','') v)"

section \<open>HoneyPot (stealth-protection.js)\<close>

record trap =
  hits :: nat
  lastHit :: "int option"

text \<open>\<^verbatim>\<open>trapped\<close> is a Set of identities, \<^verbatim>\<open>traps\<close> a Map in insertion order.\<close>

record honeypot =
  trapped :: "string set"
  traps :: "(string \<times> trap) list"

definition commonPaths :: "string list" where
  "commonPaths =
     [''/admin'', ''/.env'', ''/config'', ''/backup'', ''/.git'', ''/phpMyAdmin'', ''/wp-admin'',
      ''/administrator'', ''/.aws'', ''/api/admin'', ''/api/config'', ''/api/debug'', ''/api/test'',
      ''/.htaccess'', ''/web.config'']"

text \<open>The constructor: an empty trapped set, and \<^verbatim>\<open>initTraps\<close>.\<close>

definition HoneyPot_new :: honeypot where
  "HoneyPot_new =
     \<lparr>trapped = {}, traps = map (\<lambda>p. (p, \<lparr>hits = 0, lastHit = None\<rparr>)) commonPaths\<rparr>"

text \<open>The loop of \<^verbatim>\<open>check\<close> over the traps: the first trap path the lowercased path js_includes
  is hit, and the loop returns there.\<close>

fun check_traps :: "(string \<times> trap) list \<Rightarrow> string \<Rightarrow> int \<Rightarrow> (string \<times> trap) list \<times> bool" where
  "check_traps [] p now = ([], False)"
| "check_traps ((trapPath, d) # ts) p now =
     (if js_includes p trapPath
      then ((trapPath, \<lparr>hits = hits d + 1, lastHit = Some now\<rparr>) # ts, True)
      else (case check_traps ts p now of (ts', b) \<Rightarrow> ((trapPath, d) # ts', b)))"

text \<open>\<^verbatim>\<open>check(req)\<close> at clock reading \<open>now\<close>; \<^verbatim>\<open>logSilently\<close> builds an entry and drops it.\<close>

definition HoneyPot_check :: "honeypot \<Rightarrow> request \<Rightarrow> int \<Rightarrow> honeypot \<times> bool" where
  "HoneyPot_check h req now =
     (let p = toLowerCase (path req); ip = getIP req
      in case check_traps (traps h) p now of
           (ts', True) \<Rightarrow> (\<lparr>trapped = insert ip (trapped h), traps = ts'\<rparr>, True)
         | (ts', False) \<Rightarrow> (h, False))"

definition isTrapped :: "honeypot \<Rightarrow> request \<Rightarrow> bool" where
  "isTrapped h req = (getIP req \<in> trapped h)"

text \<open>Every operation of the class that can run on a honeypot, and a run of them.\<close>

datatype hp_op = Check request int | IsTrapped request

fun hp_step :: "honeypot \<Rightarrow> hp_op \<Rightarrow> honeypot" where
  "hp_step h (Check req now) = fst (HoneyPot_check h req now)"
| "hp_step h (IsTrapped req) = h"

definition hp_run :: "honeypot \<Rightarrow> hp_op list \<Rightarrow> honeypot" where
  "hp_run h ops = foldl hp_step h ops"

section \<open>AdaptiveProtection (stealth-protection.js)\<close>

record metrics =
  totalRequests :: nat
  blockedRequests :: nat
  suspiciousRequests :: nat

record adaptive =
  threatLevel :: int
  adjustInterval :: int
  metrics :: metrics

definition zero_metrics :: metrics where
  "zero_metrics = \<lparr>totalRequests = 0, blockedRequests = 0, suspiciousRequests = 0\<rparr>"

definition AdaptiveProtection_new :: adaptive where
  "AdaptiveProtection_new = \<lparr>threatLevel = 0, adjustInterval = 60000, metrics = zero_metrics\<rparr>"

definition recordMetric :: "adaptive \<Rightarrow> string \<Rightarrow> adaptive" where
  "recordMetric a ty =
     (let m = metrics a;
          m1 = m\<lparr>totalRequests := totalRequests m + 1\<rparr>;
          m2 = (if ty = ''blocked'' then m1\<lparr>blockedRequests := blockedRequests m1 + 1\<rparr>
                else if ty = ''suspicious'' then m1\<lparr>suspiciousRequests := suspiciousRequests m1 + 1\<rparr>
                else m1)
      in a\<lparr>metrics := m2\<rparr>)"

text \<open>\<^verbatim>\<open>adjust()\<close>, the body of the periodic tick. The two rates are quotients of counters,
  compared here as exact rationals.\<close>

definition adjust :: "adaptive \<Rightarrow> adaptive" where
  "adjust a =
     (let m = metrics a
      in if totalRequests m = 0 then a
         else
           let blockRate = (of_nat (blockedRequests m) / of_nat (totalRequests m) :: rat);
               suspiciousRate = (of_nat (suspiciousRequests m) / of_nat (totalRequests m) :: rat);
               lvl = (if blockRate > 1 / 10 \<or> suspiciousRate > 2 / 10
                      then min 10 (threatLevel a + 1)
                      else if blockRate < 1 / 100 \<and> suspiciousRate < 5 / 100
                      then max 0 (threatLevel a - 1)
                      else threatLevel a)
           in a\<lparr>threatLevel := lvl, metrics := zero_metrics\<rparr>)"

definition getProtectionLevel :: "adaptive \<Rightarrow> string" where
  "getProtectionLevel a =
     (if threatLevel a \<ge> 8 then ''maximum''
      else if threatLevel a \<ge> 5 then ''high''
      else if threatLevel a \<ge> 3 then ''medium''
      else ''normal'')"

text \<open>\<^verbatim>\<open>getAdjustedLimits()\<close>: the pair (requests, window) of the current level.\<close>

definition getAdjustedLimits :: "adaptive \<Rightarrow> nat \<times> int" where
  "getAdjustedLimits a =
     (let level = getProtectionLevel a
      in if level = ''normal'' then (100, 60000)
         else if level = ''medium'' then (50, 60000)
         else if level = ''high'' then (30, 60000)
         else (10, 60000))"

text \<open>The operations of the class; the two getters read the state and leave it as it is.\<close>

datatype ap_op = RecordMetric string | Adjust | GetProtectionLevel | GetAdjustedLimits

fun ap_step :: "adaptive \<Rightarrow> ap_op \<Rightarrow> adaptive" where
  "ap_step a (RecordMetric ty) = recordMetric a ty"
| "ap_step a Adjust = adjust a"
| "ap_step a GetProtectionLevel = a"
| "ap_step a GetAdjustedLimits = a"

definition ap_run :: "adaptive \<Rightarrow> ap_op list \<Rightarrow> adaptive" where
  "ap_run a ops = foldl ap_step a ops"

section \<open>BehaviorAnalyzer (stealth-protection.js)\<close>

text \<open>One entry of a request history: the clock reading, the path and the method.\<close>

record req_record =
  r_time :: int
  r_path :: string
  r_method :: string

record profile =
  requests :: "req_record list"
  userAgent :: "string option"
  hasAccept :: bool
  hasAcceptLanguage :: bool
  score :: nat

text \<open>\<^verbatim>\<open>new Set(xs).size\<close>\<close>

definition set_size :: "'a list \<Rightarrow> nat" where
  "set_size xs = card (set xs)"

text \<open>\<^verbatim>\<open>xs.slice(-n)\<close>: the last \<open>n\<close> elements, all of them when there are fewer.\<close>

definition slice_last :: "nat \<Rightarrow> 'a list \<Rightarrow> 'a list" where
  "slice_last n xs = drop (length xs - n) xs"

definition scanning :: "profile \<Rightarrow> bool" where
  "scanning p = (set_size (map r_path (requests p)) > 20 \<and> length (requests p) > 30)"

definition methodProbing :: "profile \<Rightarrow> bool" where
  "methodProbing p = (set_size (map r_method (requests p)) > 4)"

definition bot_words :: rx where
  "bot_words = Alt (Lit ''bot'') (Alt (Lit ''crawler'') (Alt (Lit ''spider'') (Lit ''scraper'')))"

definition botPattern :: "profile \<Rightarrow> bool" where
  "botPattern p =
     (let ua = (if truthy (userAgent p) then the (userAgent p) else [])
      in ua = [] \<or> length ua < 10 \<or> test_i bot_words ua)"

definition missingHeaders :: "profile \<Rightarrow> bool" where
  "missingHeaders p = (\<not> hasAccept p \<or> \<not> hasAcceptLanguage p)"

text \<open>The differences of consecutive clock readings.\<close>

fun intervals :: "req_record list \<Rightarrow> int list" where
  "intervals (a # b # rs) = (r_time b - r_time a) # intervals (b # rs)"
| "intervals rs = []"

definition timePattern :: "profile \<Rightarrow> bool" where
  "timePattern p =
     (if length (requests p) < 5 then False
      else let iv = intervals (requests p);
               avgInterval = (of_int (sum_list iv) / of_nat (length iv) :: rat)
           in avgInterval < 100)"

text \<open>\<^verbatim>\<open>suspiciousPatterns\<close>, in the order of the object's entries.\<close>

definition suspiciousPatterns :: "(profile \<Rightarrow> bool) list" where
  "suspiciousPatterns = [scanning, methodProbing, botPattern, missingHeaders, timePattern]"

record analysis =
  suspicious :: bool
  a_score :: nat
  a_profile :: profile

text \<open>\<^verbatim>\<open>analyze(req)\<close> at clock reading \<open>now\<close>, on the map of profiles.\<close>

definition BehaviorAnalyzer_analyze ::
  "(string \<rightharpoonup> profile) \<Rightarrow> request \<Rightarrow> int \<Rightarrow> (string \<rightharpoonup> profile) \<times> analysis" where
  "BehaviorAnalyzer_analyze profiles req now =
     (let ip = getIP req;
          p0 = (case profiles ip of
                  Some p \<Rightarrow> p
                | None \<Rightarrow> \<lparr>requests = [], userAgent = headers req ''user-agent'',
                            hasAccept = truthy (headers req ''accept''),
                            hasAcceptLanguage = truthy (headers req ''accept-language''),
                            score = 0\<rparr>);
          pushed = requests p0 @ [\<lparr>r_time = now, r_path = path req, r_method = method req\<rparr>];
          p1 = p0\<lparr>requests := (if length pushed > 100 then slice_last 100 pushed else pushed)\<rparr>;
          sc = length (filter (\<lambda>check. check p1) suspiciousPatterns);
          p2 = p1\<lparr>score := sc\<rparr>
      in (profiles(ip \<mapsto> p2), \<lparr>suspicious = (sc \<ge> 2), a_score = sc, a_profile = p2\<rparr>))"




subsection \<open>Two concrete profiles for the scan-breadth predicate\<close>

text \<open>Requests number 0 to \<open>n - 1\<close>, one millisecond apart, cycling through \<open>k\<close> distinct paths
  (a slash followed by 0 to \<open>k - 1\<close> letters).\<close>

definition cycling_profile :: "nat \<Rightarrow> nat \<Rightarrow> profile" where
  "cycling_profile k n =
     \<lparr>requests = map (\<lambda>i. \<lparr>r_time = int i, r_path = CHR ''/'' # replicate (i mod k) CHR ''p'',
                            r_method = ''GET''\<rparr>) [0 ..< n],
      userAgent = Some ''Mozilla/5.0 (X11; Linux x86_64) Gecko/20100101 Firefox/121.0'',
      hasAccept = True, hasAcceptLanguage = True, score = 0\<rparr>"

section \<open>RequestFingerprint (advanced-security.js)\<close>

record fp_data =
  fp_ip :: string
  fp_requests :: "req_record list"
  firstSeen :: int
  fp_suspicious :: bool

record fingerprinter =
  fingerprints :: "string \<rightharpoonup> fp_data"
  suspiciousIPs :: "string set"

record fp_patterns =
  highFrequency :: bool
  fp_scanning :: bool
  bruteForce :: bool

record fp_analysis =
  fa_suspicious :: bool
  patterns :: "fp_patterns option"
  requestCount :: "nat option"

definition header_or_empty :: "request \<Rightarrow> string \<Rightarrow> string" where
  "header_or_empty req h = (if truthy (headers req h) then the (headers req h) else [])"


text \<open>\<^verbatim>\<open>analyze(fingerprint)\<close> at clock reading \<open>now\<close>.\<close>

definition RequestFingerprint_analyze :: "fingerprinter \<Rightarrow> string \<Rightarrow> int \<Rightarrow> fingerprinter \<times> fp_analysis" where
  "RequestFingerprint_analyze f fingerprint now =
     (case fingerprints f fingerprint of
        None \<Rightarrow> (f, \<lparr>fa_suspicious = False, patterns = None, requestCount = None\<rparr>)
      | Some d \<Rightarrow>
          let recentRequests = filter (\<lambda>r. now - r_time r < 60000) (fp_requests d);
              pat = \<lparr>highFrequency = (length recentRequests > 60),
                     fp_scanning = (set_size (map r_path recentRequests) > 20),
                     bruteForce = (length (filter (\<lambda>r. js_includes (r_path r) ''/login''
                                                        \<or> js_includes (r_path r) ''/register'')
                                             recentRequests) > 5)\<rparr>;
              susp = (highFrequency pat \<or> fp_scanning pat \<or> bruteForce pat);
              f' = (if susp
                    then f\<lparr>fingerprints := (fingerprints f)(fingerprint \<mapsto> d\<lparr>fp_suspicious := True\<rparr>),
                           suspiciousIPs := insert (fp_ip d) (suspiciousIPs f)\<rparr>
                    else f)
          in (f', \<lparr>fa_suspicious = susp, patterns = Some pat,
                   requestCount = Some (length recentRequests)\<rparr>))"






section \<open>ThreatDetector (advanced-security.js)\<close>

text \<open>The reasons are Chinese phrases in the source; each is named by a constructor here, in
  the order in which \<^verbatim>\<open>assess\<close> tests them.\<close>

datatype reason = HighFrequency | Scanning | BruteForce | MaliciousUserAgent | MissingHeaders

record incident =
  i_timestamp :: int
  i_score :: nat
  i_reasons :: "reason list"
  i_path :: string

record threat =
  t_score :: nat
  incidents :: "incident list"

record detector =
  threats :: "string \<rightharpoonup> threat"
  threshold :: nat

record verdict =
  v_score :: nat
  v_reasons :: "reason list"
  blocked :: bool

definition ThreatDetector_new :: detector where
  "ThreatDetector_new = \<lparr>threats = Map.empty, threshold = 10\<rparr>"

text \<open>The array \<^verbatim>\<open>malicious\<close> of \<^verbatim>\<open>isMaliciousUA\<close>: each entry is a literal pattern with the
  flag \<^verbatim>\<open>i\<close>.\<close>

definition malicious_agents :: "string list" where
  "malicious_agents = [''sqlmap'', ''nikto'', ''nmap'', ''masscan'', ''nessus'', ''openvas'', ''acunetix'',
                ''burp'', ''metasploit'', ''havij'']"

definition isMaliciousUA :: "string \<Rightarrow> bool" where
  "isMaliciousUA ua = list_ex (\<lambda>w. test_i (Lit w) ua) malicious_agents"

text \<open>\<^verbatim>\<open>analysis.patterns?.flag\<close>\<close>

definition flag_of :: "fp_analysis \<Rightarrow> (fp_patterns \<Rightarrow> bool) \<Rightarrow> bool" where
  "flag_of a sel = (case patterns a of None \<Rightarrow> False | Some p \<Rightarrow> sel p)"

text \<open>The five tests of \<^verbatim>\<open>assess\<close>: the points and the reason of each one that fires.\<close>

definition findings_of :: "request \<Rightarrow> fp_analysis \<Rightarrow> (nat \<times> reason) list" where
  "findings_of req a =
     (if flag_of a highFrequency then [(5, HighFrequency)] else [])
     @ (if flag_of a fp_scanning then [(7, Scanning)] else [])
     @ (if flag_of a bruteForce then [(10, BruteForce)] else [])
     @ (if isMaliciousUA (header_or_empty req ''user-agent'') then [(8, MaliciousUserAgent)] else [])
     @ (if \<not> truthy (headers req ''accept'') \<or> \<not> truthy (headers req ''accept-language'')
        then [(3, MissingHeaders)] else [])"

text \<open>\<^verbatim>\<open>assess(req, analysis)\<close> at clock reading \<open>now\<close>.\<close>

definition assess :: "detector \<Rightarrow> request \<Rightarrow> fp_analysis \<Rightarrow> int \<Rightarrow> detector \<times> verdict" where
  "assess td req a now =
     (let ip = getIP req;
          fs = findings_of req a;
          sc = sum_list (map fst fs);
          reasons = map snd fs;
          td' = (if sc > 0
                 then let t = (case threats td ip of Some t \<Rightarrow> t
                                                 | None \<Rightarrow> \<lparr>t_score = 0, incidents = []\<rparr>)
                      in td\<lparr>threats := (threats td)(ip \<mapsto>
                             \<lparr>t_score = t_score t + sc,
                              incidents = incidents t @ [\<lparr>i_timestamp = now, i_score = sc,
                                                         i_reasons = reasons, i_path = path req\<rparr>]\<rparr>)\<rparr>
                 else td)
      in (td', \<lparr>v_score = sc, v_reasons = reasons, blocked = (sc \<ge> threshold td)\<rparr>))"

text \<open>\<^verbatim>\<open>getThreatLevel(ip)\<close>: the cumulative score kept for an identity.\<close>

definition getThreatLevel :: "detector \<Rightarrow> string \<Rightarrow> nat" where
  "getThreatLevel td ip = (case threats td ip of None \<Rightarrow> 0 | Some t \<Rightarrow> t_score t)"

text \<open>A run of \<^verbatim>\<open>assess\<close> calls.\<close>

definition assess_all :: "detector \<Rightarrow> (request \<times> fp_analysis \<times> int) list \<Rightarrow> detector" where
  "assess_all td calls = foldl (\<lambda>d (req, a, now). fst (assess d req a now)) td calls"

subsection \<open>Concrete requests for the aggregator\<close>

text \<open>A request of a scanning tool that sends the usual browser headers, a browser's request
  to the login page, and the two analyses that go with them.\<close>

definition tool_request :: request where
  "tool_request =
     \<lparr>headers = [''user-agent'' \<mapsto> ''sqlmap/1.7'', ''accept'' \<mapsto> ''*/*'',
                 ''accept-language'' \<mapsto> ''en'', ''x-real-ip'' \<mapsto> ''6.6.6.6''],
      path = ''/search'', method = ''GET'', connection = None, socket = None\<rparr>"

definition login_request :: request where
  "login_request =
     \<lparr>headers = [''user-agent'' \<mapsto> ''Mozilla/5.0 (X11; Linux x86_64) Firefox/121.0'',
                 ''accept'' \<mapsto> ''text/html'', ''accept-language'' \<mapsto> ''en'',
                 ''x-real-ip'' \<mapsto> ''7.7.7.7''],
      path = ''/login'', method = ''POST'', connection = None, socket = None\<rparr>"

definition quiet_analysis :: fp_analysis where
  "quiet_analysis =
     \<lparr>fa_suspicious = False,
      patterns = Some \<lparr>highFrequency = False, fp_scanning = False, bruteForce = False\<rparr>,
      requestCount = Some 1\<rparr>"

definition brute_analysis :: fp_analysis where
  "brute_analysis =
     \<lparr>fa_suspicious = True,
      patterns = Some \<lparr>highFrequency = False, fp_scanning = False, bruteForce = True\<rparr>,
      requestCount = Some 6\<rparr>"

section \<open>DDoSProtection and TrafficShaper (the DDoS protection module)\<close>

text \<open>The reason texts are Chinese phrases in the source; each is named by a constructor.\<close>

datatype limit_reason = IpBanned | RateExceeded | TrafficExceeded

text \<open>What the two \<^verbatim>\<open>check\<close> methods return; a property the object lacks is \<^const>\<open>None\<close>.\<close>

record limit_result =
  allowed :: bool
  reason :: "limit_reason option"
  retryAfter :: "rat option"
  remaining :: "int option"

record ddos_options =
  opt_windowMs :: "int option"
  opt_maxRequests :: "nat option"
  opt_banDuration :: "int option"
  opt_whitelist :: "string list"

record ddos =
  windowMs :: int
  maxRequests :: nat
  banDuration :: int
  ip_requests :: "string \<rightharpoonup> int list"
  banned :: "string \<rightharpoonup> int"
  whitelist :: "string set"

text \<open>\<^verbatim>\<open>options.x || d\<close> on a number: absent and zero both give the default.\<close>

definition num_or :: "'a::zero option \<Rightarrow> 'a \<Rightarrow> 'a" where
  "num_or v d = (case v of None \<Rightarrow> d | Some x \<Rightarrow> if x = 0 then d else x)"

definition DDoSProtection_new :: "ddos_options \<Rightarrow> ddos" where
  "DDoSProtection_new options =
     \<lparr>windowMs = num_or (opt_windowMs options) 60000,
      maxRequests = num_or (opt_maxRequests options) 100,
      banDuration = num_or (opt_banDuration options) 3600000,
      ip_requests = Map.empty, banned = Map.empty,
      whitelist = set (opt_whitelist options)\<rparr>"

text \<open>\<^verbatim>\<open>ban(ip)\<close> at clock reading \<open>now\<close>.\<close>

definition ban :: "ddos \<Rightarrow> string \<Rightarrow> int \<Rightarrow> ddos" where
  "ban d ip now = d\<lparr>banned := (banned d)(ip \<mapsto> now + banDuration d)\<rparr>"

text \<open>\<^verbatim>\<open>isBanned(ip)\<close>: an expired ban is deleted on lookup.\<close>

definition isBanned :: "ddos \<Rightarrow> string \<Rightarrow> int \<Rightarrow> ddos \<times> bool" where
  "isBanned d ip now =
     (case banned d ip of
        None \<Rightarrow> (d, False)
      | Some banUntil \<Rightarrow>
          if banUntil = 0 then (d, False)
          else if now > banUntil then (d\<lparr>banned := (banned d)(ip := None)\<rparr>, False)
          else (d, True))"

definition getBanTimeRemaining :: "ddos \<Rightarrow> string \<Rightarrow> int \<Rightarrow> int" where
  "getBanTimeRemaining d ip now =
     (case banned d ip of
        None \<Rightarrow> 0
      | Some banUntil \<Rightarrow>
          if banUntil = 0 then 0
          else max 0 (ceiling (of_int (banUntil - now) / 1000 :: rat)))"

text \<open>\<^verbatim>\<open>check(req)\<close>; the clock reads \<open>now\<close> throughout the call.\<close>

definition DDoSProtection_check :: "ddos \<Rightarrow> request \<Rightarrow> int \<Rightarrow> ddos \<times> limit_result" where
  "DDoSProtection_check d req now =
     (let ip = getIP_socket req
      in if ip \<in> whitelist d
         then (d, \<lparr>allowed = True, reason = None, retryAfter = None, remaining = None\<rparr>)
         else case isBanned d ip now of
           (d1, True) \<Rightarrow>
             (d1, \<lparr>allowed = False, reason = Some IpBanned,
                   retryAfter = Some (of_int (getBanTimeRemaining d1 ip now)), remaining = None\<rparr>)
         | (d1, False) \<Rightarrow>
             let ipRequests = (case ip_requests d1 ip of None \<Rightarrow> [] | Some ts \<Rightarrow> ts);
                 d2 = (case ip_requests d1 ip of None \<Rightarrow> d1\<lparr>ip_requests := (ip_requests d1)(ip \<mapsto> [])\<rparr>
                                              | Some ts \<Rightarrow> d1);
                 validRequests = filter (\<lambda>timestamp. now - timestamp < windowMs d2) ipRequests
             in if length validRequests \<ge> maxRequests d2
                then (ban d2 ip now,
                      \<lparr>allowed = False, reason = Some RateExceeded,
                       retryAfter = Some (of_int (banDuration d2) / 1000), remaining = None\<rparr>)
                else (d2\<lparr>ip_requests := (ip_requests d2)(ip \<mapsto> validRequests @ [now])\<rparr>,
                      \<lparr>allowed = True, reason = None, retryAfter = None,
                       remaining = Some (int (maxRequests d2) - int (length (validRequests @ [now])))\<rparr>))"

text \<open>Checks of one request at successive clock readings: the final state and the results.\<close>

fun checks :: "ddos \<Rightarrow> request \<Rightarrow> int list \<Rightarrow> ddos \<times> limit_result list" where
  "checks d req [] = (d, [])"
| "checks d req (t # ts) =
     (case DDoSProtection_check d req t of
        (d', r) \<Rightarrow> (case checks d' req ts of (d'', rs) \<Rightarrow> (d'', r # rs)))"

text \<open>The limiter of the claim: limit 5, window 60000 ms, everything else by default.\<close>

definition limiter5 :: ddos where
  "limiter5 = DDoSProtection_new
     \<lparr>opt_windowMs = Some 60000, opt_maxRequests = Some 5, opt_banDuration = None, opt_whitelist = []\<rparr>"

definition plain_request :: request where
  "plain_request =
     \<lparr>headers = [''x-forwarded-for'' \<mapsto> ''1.2.3.4''], path = ''/api/messages'', method = ''GET'',
      connection = None, socket = None\<rparr>"

subsection \<open>The state of the limiter for one identity, as the proofs follow it\<close>

text \<open>The recorded clock readings of an identity, and the limiter of the claim with these
  readings and this ban entry for the identity.\<close>

definition stamps :: "ddos \<Rightarrow> string \<Rightarrow> int list" where
  "stamps d ip = (case ip_requests d ip of None \<Rightarrow> [] | Some ts \<Rightarrow> ts)"

definition limiter_state :: "ddos \<Rightarrow> string \<Rightarrow> int list \<Rightarrow> int option \<Rightarrow> bool" where
  "limiter_state d ip ts b \<longleftrightarrow>
     windowMs d = 60000 \<and> maxRequests d = 5 \<and> banDuration d = 3600000 \<and> whitelist d = {}
     \<and> stamps d ip = ts \<and> banned d ip = b"






section \<open>BotDetector (the bot detection module)\<close>

record bot_entry =
  b_score :: nat
  lastSeen :: int

record bot_detector =
  bot_suspiciousIPs :: "string \<rightharpoonup> bot_entry"

record bot_verdict =
  isBot :: bool
  bot_score :: nat
  confidence :: rat

text \<open>\<^verbatim>\<open>knownBots.userAgents\<close>: each entry is a literal pattern with the flag \<^verbatim>\<open>i\<close>.\<close>

definition userAgents :: "string list" where
  "userAgents = [''bot'', ''crawler'', ''spider'', ''scraper'', ''curl'', ''wget'', ''python'', ''java'',
                 ''go-http'', ''okhttp'', ''axios'', ''postman'', ''insomnia'', ''httpie'']"

definition BotDetector_new :: bot_detector where
  "BotDetector_new = \<lparr>bot_suspiciousIPs = Map.empty\<rparr>"

text \<open>The user-agent check of \<^verbatim>\<open>calculateBotScore\<close>: 5 for no user-agent, else 3 at the first
  pattern that matches.\<close>

definition userAgent_score :: "string \<Rightarrow> nat" where
  "userAgent_score ua =
     (if ua = [] then 5
      else if list_ex (\<lambda>w. test_i (Lit w) ua) userAgents then 3 else 0)"

text \<open>\<^verbatim>\<open>knownBots.headers\<close>: the four header checks, one point each.\<close>

definition header_checks :: "(request \<Rightarrow> bool) list" where
  "header_checks =
     [\<lambda>req. \<not> truthy (headers req ''accept''),
      \<lambda>req. \<not> truthy (headers req ''accept-language''),
      \<lambda>req. \<not> truthy (headers req ''accept-encoding''),
      \<lambda>req. headers req ''connection'' = Some ''close'']"

definition checkRequestPattern :: "bot_detector \<Rightarrow> request \<Rightarrow> int \<Rightarrow> bool" where
  "checkRequestPattern bd req now =
     (case bot_suspiciousIPs bd (getIP req) of
        None \<Rightarrow> False
      | Some data \<Rightarrow> now - lastSeen data < 60000 \<and> b_score data > 5)"

definition calculateBotScore :: "bot_detector \<Rightarrow> request \<Rightarrow> int \<Rightarrow> nat" where
  "calculateBotScore bd req now =
     userAgent_score (header_or_empty req ''user-agent'')
     + length (filter (\<lambda>check. check req) header_checks)
     + (if checkRequestPattern bd req now then 2 else 0)"

text \<open>\<^verbatim>\<open>detect(req)\<close> at clock reading \<open>now\<close>.\<close>

definition detect :: "bot_detector \<Rightarrow> request \<Rightarrow> int \<Rightarrow> bot_detector \<times> bot_verdict" where
  "detect bd req now =
     (let sc = calculateBotScore bd req now;
          ip = getIP req;
          bd' = (if sc > 5
                 then bd\<lparr>bot_suspiciousIPs := (bot_suspiciousIPs bd)(ip \<mapsto> \<lparr>b_score = sc, lastSeen = now\<rparr>)\<rparr>
                 else bd)
      in (bd', \<lparr>isBot = (sc > 7), bot_score = sc, confidence = min (of_nat sc / 10) 1\<rparr>))"

subsection \<open>Matching a list of words, as the specification words it\<close>

text \<open>The user-agent contains the word, letters compared without regard to case.\<close>

definition contains_ci :: "string \<Rightarrow> string \<Rightarrow> bool" where
  "contains_ci ua w = js_includes (map js_upper_char ua) (map js_upper_char w)"

definition matches_any :: "string list \<Rightarrow> string \<Rightarrow> bool" where
  "matches_any ws ua = list_ex (contains_ci ua) ws"

subsection \<open>Concrete inputs for the user-agent checks\<close>

text \<open>A profile whose user-agent has nine characters, and a request without a user-agent that
  carries the other browser headers.\<close>

definition short_ua_profile :: profile where
  "short_ua_profile =
     \<lparr>requests = [], userAgent = Some ''Mozilla/5'', hasAccept = True, hasAcceptLanguage = True,
      score = 0\<rparr>"

definition no_ua_request :: request where
  "no_ua_request =
     \<lparr>headers = [''accept'' \<mapsto> ''text/html'', ''accept-language'' \<mapsto> ''en'',
                 ''accept-encoding'' \<mapsto> ''gzip'', ''connection'' \<mapsto> ''keep-alive''],
      path = ''/'', method = ''GET'', connection = Some \<lparr>remoteAddress = Some ''10.1.1.1''\<rparr>,
      socket = None\<rparr>"

definition browser_request :: request where
  "browser_request =
     \<lparr>headers = [''user-agent'' \<mapsto> ''Mozilla/5.0 (Windows NT 10.0; Win64; x64) AppleWebKit/537.36 (KHTML, like Gecko) Chrome/120.0.0.0 Safari/537.36'',
                 ''accept'' \<mapsto> ''text/html'', ''accept-language'' \<mapsto> ''en'',
                 ''accept-encoding'' \<mapsto> ''gzip'', ''connection'' \<mapsto> ''keep-alive''],
      path = ''/'', method = ''GET'', connection = Some \<lparr>remoteAddress = Some ''10.1.1.2''\<rparr>,
      socket = None\<rparr>"

section \<open>PayloadScanner (payload-scanner.js)\<close>

text \<open>A finding names the signature type and the pattern (in the source the text of the
  pattern, here its syntax tree).\<close>

record finding =
  f_type :: string
  f_pattern :: rx

text \<open>The result of a scan; the early return for a falsy input has only the first property.\<close>

record scan_result =
  malicious :: bool
  findings :: "finding list option"
  s_confidence :: "rat option"

record cache_entry =
  c_result :: scan_result
  c_time :: int

text \<open>The signature table is an object whose keys keep their order; the expressions are
  created once, by the constructor, and every scan uses the same objects.\<close>

record scanner =
  signatures :: "(string \<times> regexp list) list"
  cache :: "string \<rightharpoonup> cache_entry"
  cacheTimeout :: int

text \<open>\<^verbatim>\<open>/.../gi\<close> and \<^verbatim>\<open>/.../g\<close>\<close>

definition gi :: "rx \<Rightarrow> regexp" where
  "gi r = \<lparr>pattern = r, ignoreCase = True, global = True, lastIndex = 0\<rparr>"

definition g :: "rx \<Rightarrow> regexp" where
  "g r = \<lparr>pattern = r, ignoreCase = False, global = True, lastIndex = 0\<rparr>"

fun seq :: "rx list \<Rightarrow> rx" where
  "seq [] = Lit []"
| "seq [r] = r"
| "seq (r # rs) = Seq r (seq rs)"

definition hex_digit :: cclass where
  "hex_digit = CUnion (CRange CHR ''0'' CHR ''9'') (CRange CHR ''a'' CHR ''f'')"

text \<open>\<^verbatim>\<open>\bWORD\b\<close>\<close>

definition whole_word :: "string \<Rightarrow> rx" where
  "whole_word w = seq [WordBoundary, Lit w, WordBoundary]"

definition xss :: "regexp list" where
  "xss =
     [gi (seq [Lit ''<script'', StarLazy CAny, Lit ''>'', StarLazy CAny, Lit ''</script>'']),
      gi (Lit ''javascript:''),
      gi (seq [Lit ''on'', Plus CWord, Star CSpace, Lit ''='']),
      gi (Lit ''<iframe''),
      gi (seq [Lit ''eval'', Star CSpace, Lit ''('']),
      gi (seq [Lit ''expression'', Star CSpace, Lit ''('']),
      gi (Lit ''vbscript:''),
      gi (Lit ''data:text/html''),
      gi (Lit ''<embed''),
      gi (Lit ''<object'')]"

definition sql :: "regexp list" where
  "sql =
     [gi (seq [whole_word ''UNION'', Star CDot, whole_word ''SELECT'']),
      gi (seq [whole_word ''SELECT'', Star CDot, whole_word ''FROM'', Star CDot, whole_word ''WHERE'']),
      gi (seq [Lit '';'', Star CSpace, Lit ''DROP'', Plus CSpace, Lit ''TABLE'']),
      gi (seq [Lit '';'', Star CSpace, Lit ''DELETE'', Plus CSpace, Lit ''FROM'']),
      gi (seq [Alt (whole_word ''EXEC'') (whole_word ''EXECUTE''), Star CSpace, Lit ''('']),
      gi (seq [whole_word ''INSERT'', Star CDot, whole_word ''INTO'', Star CDot, whole_word ''VALUES'']),
      gi (seq [Lit ''0x'', Plus hex_digit]),
      gi (seq [whole_word ''OR'', Plus CSpace, Lit ''1'', Star CSpace, Lit ''='', Star CSpace, Lit ''1'']),
      gi (seq [whole_word ''AND'', Plus CSpace, Lit ''1'', Star CSpace, Lit ''='', Star CSpace, Lit ''1''])]"

definition nosql :: "regexp list" where
  "nosql =
     [gi (Lit ''$where''),
      gi (Lit ''$ne''),
      gi (Lit ''$gt''),
      gi (Lit ''$regex''),
      g (seq [Lit ''{'', Star CSpace, Lit ''$'', Star CDot, Lit ''}''])]"

text \<open>The code unit 96 is the backquote, 92 the backslash.\<close>

definition command :: "regexp list" where
  "command =
     [gi (seq [Cls (COneOf [CHR '';'', CHR ''&'', CHR ''|'', CHR 0x60]), Star CSpace,
               Alt (Lit ''ls'') (Alt (Lit ''cat'') (Alt (Lit ''wget'') (Alt (Lit ''curl'')
                 (Alt (Lit ''nc'') (Alt (Lit ''bash'') (Alt (Lit ''sh'') (Alt (Lit ''cmd'')
                   (Lit ''powershell''))))))))]),
      g (seq [Lit ''$('', Star CDot, Lit '')'']),
      g (seq [Lit [CHR 0x60], Star CDot, Lit [CHR 0x60]]),
      g (seq [Lit ''|'', Star CSpace, Plus CWord])]"

definition ldap :: "regexp list" where
  "ldap = [g (Lit ''(|''), g (Lit ''(&''), g (Lit ''(!''), g (Lit ''*)'')]"

definition xml :: "regexp list" where
  "xml =
     [gi (Lit ''<!ENTITY''),
      gi (Lit ''<!DOCTYPE''),
      gi (Lit ''<![CDATA[''),
      g (seq [Lit ''&'', Plus CWord, Lit '';''])]"

definition traversal :: "regexp list" where
  "traversal =
     [g (seq [Lit ''..'', Cls (COneOf [CHR ''/'', CHR 0x5C])]),
      gi (seq [Lit ''%2e%2e'', Cls (COneOf [CHR ''/'', CHR 0x5C])]),
      gi (Lit ''..%2f''),
      gi (Lit ''..%5c'')]"

definition ssrf :: "regexp list" where
  "ssrf =
     [gi (Lit ''file://''),
      gi (Lit ''gopher://''),
      gi (Lit ''dict://''),
      gi (Lit ''localhost''),
      g (Lit ''127.0.0.1''),
      g (Lit ''0.0.0.0''),
      g (Lit ''169.254.'')]"

definition loadSignatures :: "(string \<times> regexp list) list" where
  "loadSignatures =
     [(''xss'', xss), (''sql'', sql), (''nosql'', nosql), (''command'', command), (''ldap'', ldap),
      (''xml'', xml), (''traversal'', traversal), (''ssrf'', ssrf)]"

definition PayloadScanner_new :: scanner where
  "PayloadScanner_new = \<lparr>signatures = loadSignatures, cache = Map.empty, cacheTimeout = 300000\<rparr>"

definition calculateConfidence :: "finding list \<Rightarrow> rat" where
  "calculateConfidence fs =
     (if length fs = 0 then 0 else if length fs \<ge> 3 then 1 else of_nat (length fs) * (4 / 10))"

text \<open>The inner loop of \<^verbatim>\<open>scan\<close>: every pattern of one type is tested, and keeps the
  \<^verbatim>\<open>lastIndex\<close> the test leaves.\<close>

fun scan_patterns :: "string \<Rightarrow> regexp list \<Rightarrow> string \<Rightarrow> regexp list \<times> finding list" where
  "scan_patterns sigType [] inputStr = ([], [])"
| "scan_patterns sigType (re # res) inputStr =
     (case regexp_test re inputStr of
        (re', hit) \<Rightarrow>
          (case scan_patterns sigType res inputStr of
             (res', fs) \<Rightarrow>
               (re' # res',
                (if hit then [\<lparr>f_type = sigType, f_pattern = pattern re\<rparr>] else []) @ fs)))"

text \<open>Storing the tested expressions back under their type.\<close>

definition put_patterns :: "(string \<times> regexp list) list \<Rightarrow> string \<Rightarrow> regexp list \<Rightarrow> (string \<times> regexp list) list" where
  "put_patterns sigs sigType res = map (\<lambda>(k, v). if k = sigType then (k, res) else (k, v)) sigs"

text \<open>The outer loop over the types to check; a type without patterns is skipped.\<close>

fun scan_types :: "(string \<times> regexp list) list \<Rightarrow> string list \<Rightarrow> string \<Rightarrow> (string \<times> regexp list) list \<times> finding list" where
  "scan_types sigs [] inputStr = (sigs, [])"
| "scan_types sigs (sigType # tys) inputStr =
     (case map_of sigs sigType of
        None \<Rightarrow> scan_types sigs tys inputStr
      | Some res \<Rightarrow>
          (case scan_patterns sigType res inputStr of
             (res', fs) \<Rightarrow>
               (case scan_types (put_patterns sigs sigType res') tys inputStr of
                  (sigs', fs') \<Rightarrow> (sigs', fs @ fs'))))"

text \<open>
  \<^verbatim>\<open>scan(input, type)\<close> at clock reading \<open>now\<close>, for a string input. The cache key is the
  MD5 digest of the input, the parameter \<open>md5\<close>.
\<close>

definition scan :: "(string \<Rightarrow> string) \<Rightarrow> scanner \<Rightarrow> string \<Rightarrow> string \<Rightarrow> int \<Rightarrow> scanner \<times> scan_result" where
  "scan md5 sc input ty now =
     (if input = [] then (sc, \<lparr>malicious = False, findings = None, s_confidence = None\<rparr>)
      else
        let cacheKey = md5 input;
            fresh = (case cache sc cacheKey of
                       None \<Rightarrow> None
                     | Some cached \<Rightarrow>
                         if now - c_time cached < cacheTimeout sc then Some (c_result cached) else None)
        in case fresh of
             Some r \<Rightarrow> (sc, r)
           | None \<Rightarrow>
               let typesToCheck = (if ty = ''all'' then map fst (signatures sc) else [ty])
               in case scan_types (signatures sc) typesToCheck input of
                    (sigs', fs) \<Rightarrow>
                      let result = \<lparr>malicious = (length fs > 0), findings = Some fs,
                                    s_confidence = Some (calculateConfidence fs)\<rparr>
                      in (sc\<lparr>signatures := sigs',
                              cache := (cache sc)(cacheKey \<mapsto> \<lparr>c_result = result, c_time = now\<rparr>)\<rparr>,
                          result))"

text \<open>Is there a finding of the given type?\<close>

definition has_finding :: "scan_result \<Rightarrow> string \<Rightarrow> bool" where
  "has_finding r ty = (case findings r of None \<Rightarrow> False | Some fs \<Rightarrow> list_ex (\<lambda>f. f_type f = ty) fs)"

definition script_payload :: string where
  "script_payload = ''<script>alert(1)</script>''"

definition padded_payload :: string where
  "padded_payload = ''q=<script>alert(1)</script>''"

text \<open>The first pattern of the \<^verbatim>\<open>xss\<close> list, and the signature table as a scan of the script
  payload by a new scanner leaves it: that pattern's \<^verbatim>\<open>lastIndex\<close> is 25, the length of the
  payload.\<close>

definition script_rx :: rx where
  "script_rx = seq [Lit ''<script'', StarLazy CAny, Lit ''>'', StarLazy CAny, Lit ''</script>'']"

definition after_script :: "(string \<times> regexp list) list" where
  "after_script = (''xss'', (gi script_rx)\<lparr>lastIndex := 25\<rparr> # tl xss) # tl loadSignatures"

subsection \<open>Notions for reasoning about the scanner's state\<close>

text \<open>An expression is silent on a string when it matches nowhere in it; a signature table
  is quiet on a string when all its expressions are. Two tables have the same patterns when
  they differ in the \<^verbatim>\<open>lastIndex\<close> fields only. A run of scans is a list of inputs, types and
  clock readings.\<close>

definition silent :: "string \<Rightarrow> regexp \<Rightarrow> bool" where
  "silent s re \<longleftrightarrow> rx_search (ignoreCase re) (pattern re) (None, s) = None"

definition quiet :: "(string \<times> regexp list) list \<Rightarrow> string \<Rightarrow> bool" where
  "quiet sigs s = list_all (\<lambda>kv. list_all (silent s) (snd kv)) sigs"

definition rewind :: "(string \<times> regexp list) list \<Rightarrow> (string \<times> regexp list) list" where
  "rewind sigs = map (\<lambda>kv. (fst kv, map (\<lambda>re. re\<lparr>lastIndex := 0\<rparr>) (snd kv))) sigs"

definition scan_all :: "(string \<Rightarrow> string) \<Rightarrow> scanner \<Rightarrow> (string \<times> string \<times> int) list \<Rightarrow> scanner" where
  "scan_all md5 sc calls = foldl (\<lambda>c (input, ty, now). fst (scan md5 c input ty now)) sc calls"

text \<open>The cache holds, under every key, a result of an input with that digest, and the result
  is malicious only if the input is not quiet.\<close>

definition scanner_inv :: "(string \<Rightarrow> string) \<Rightarrow> scanner \<Rightarrow> bool" where
  "scanner_inv md5 sc \<longleftrightarrow>
     rewind (signatures sc) = loadSignatures
     \<and> (\<forall>k e. cache sc k = Some e \<longrightarrow>
            (\<exists>s. md5 s = k \<and> (malicious (c_result e) \<longrightarrow> \<not> quiet loadSignatures s)))"

section \<open>Identity extraction\<close>

lemma js_split_hd: "\<exists>ys. js_split c v = takeWhile (\<lambda>x. x \<noteq> c) v # ys"
  by (induction v) (auto split: list.splits)

lemma forwarded_first_chain:
  "forwarded_first req = map_option chain_first (headers req ''x-forwarded-for'')"
proof (cases "headers req ''x-forwarded-for''")
  case None
  then show ?thesis by (simp add: forwarded_first_def)
next
  case (Some v)
  obtain ys where "js_split CHR '','' v = takeWhile (\<lambda>x. x \<noteq> CHR '','') v # ys"
    using js_split_hd by blast
  with Some show ?thesis by (simp add: forwarded_first_def chain_first_def)
qed

text \<open>
  Claim C1. Identity extraction returns the first non-empty value among the trimmed first
  entry of the forwarded-for chain, the real-IP header and the transport-layer peer address,
  and the literal "unknown" when all are absent or empty. In particular a forwarded-for
  chain whose first entry is not blank wins over a real-IP header. The variant with a second
  peer-address lookup (the socket) follows the same order.
\<close>

theorem getIP_precedence:
  "getIP req =
     first_nonempty [map_option chain_first (headers req ''x-forwarded-for''),
                     headers req ''x-real-ip'',
                     opt_remoteAddress (connection req)] ''unknown''
   \<and> getIP_socket req =
     first_nonempty [map_option chain_first (headers req ''x-forwarded-for''),
                     headers req ''x-real-ip'',
                     opt_remoteAddress (connection req),
                     opt_remoteAddress (socket req)] ''unknown''
   \<and> (\<forall>v r. headers req ''x-forwarded-for'' = Some v \<and> headers req ''x-real-ip'' = Some r
          \<and> chain_first v \<noteq> [] \<longrightarrow> getIP req = chain_first v \<and> getIP_socket req = chain_first v)"
  unfolding getIP_def getIP_socket_def forwarded_first_chain
  by (auto simp: js_or_def truthy_def split: option.splits)

theorem getIP_precedence_witness:
  "(let req = \<lparr>headers = [''x-forwarded-for'' \<mapsto> '' 10.0.0.1 , 10.0.0.2'', ''x-real-ip'' \<mapsto> ''10.9.9.9''],
               path = ''/'', method = ''GET'',
               connection = Some \<lparr>remoteAddress = Some ''127.0.0.1''\<rparr>, socket = None\<rparr>
    in headers req ''x-forwarded-for'' = Some '' 10.0.0.1 , 10.0.0.2''
       \<and> headers req ''x-real-ip'' = Some ''10.9.9.9''
       \<and> chain_first '' 10.0.0.1 , 10.0.0.2'' = ''10.0.0.1''
       \<and> getIP req = ''10.0.0.1'' \<and> getIP_socket req = ''10.0.0.1'')"
proof -
  let ?req = "\<lparr>headers = [''x-forwarded-for'' \<mapsto> '' 10.0.0.1 , 10.0.0.2'', ''x-real-ip'' \<mapsto> ''10.9.9.9''],
               path = ''/'', method = ''GET'',
               connection = Some \<lparr>remoteAddress = Some ''127.0.0.1''\<rparr>, socket = None\<rparr>"
  have c: "chain_first '' 10.0.0.1 , 10.0.0.2'' = ''10.0.0.1''"
    by (simp add: chain_first_def js_trim_def js_whitespace_def)
  have h: "headers ?req ''x-forwarded-for'' = Some '' 10.0.0.1 , 10.0.0.2''
           \<and> headers ?req ''x-real-ip'' = Some ''10.9.9.9''
           \<and> chain_first '' 10.0.0.1 , 10.0.0.2'' \<noteq> []"
    by (simp add: c)
  from getIP_precedence [of ?req] h
  have "getIP ?req = chain_first '' 10.0.0.1 , 10.0.0.2''
        \<and> getIP_socket ?req = chain_first '' 10.0.0.1 , 10.0.0.2''"
    by blast
  with h c show ?thesis by (simp add: Let_def)
qed

section \<open>The trapped set only grows\<close>

lemma check_traps_True: "(\<exists>t \<in> set ts. js_includes p (fst t)) \<Longrightarrow> snd (check_traps ts p now) = True"
  by (induction ts p now rule: check_traps.induct) (fastforce split: prod.splits)+

lemma HoneyPot_check_mono: "trapped h \<subseteq> trapped (fst (HoneyPot_check h req now))"
  by (auto simp: HoneyPot_check_def Let_def split: prod.splits bool.splits)

lemma hp_step_mono: "trapped h \<subseteq> trapped (hp_step h op)"
  using HoneyPot_check_mono by (cases op) auto

lemma hp_run_mono: "trapped h \<subseteq> trapped (hp_run h ops)"
  unfolding hp_run_def
proof (induction ops arbitrary: h)
  case Nil
  show ?case by simp
next
  case (Cons op ops)
  have "trapped h \<subseteq> trapped (hp_step h op)" by (rule hp_step_mono)
  also have "\<dots> \<subseteq> trapped (foldl hp_step (hp_step h op) ops)" by (rule Cons.IH)
  finally show ?case by simp
qed

lemma HoneyPot_check_hit:
  assumes "\<exists>t \<in> set (traps h). js_includes (toLowerCase (path req)) (fst t)"
  shows "snd (HoneyPot_check h req now) = True"
    and "getIP req \<in> trapped (fst (HoneyPot_check h req now))"
proof -
  from assms have "snd (check_traps (traps h) (toLowerCase (path req)) now) = True"
    by (rule check_traps_True)
  then obtain ts' where "check_traps (traps h) (toLowerCase (path req)) now = (ts', True)"
    by (cases "check_traps (traps h) (toLowerCase (path req)) now") auto
  then show "snd (HoneyPot_check h req now) = True"
    and "getIP req \<in> trapped (fst (HoneyPot_check h req now))"
    by (simp_all add: HoneyPot_check_def Let_def)
qed

text \<open>
  Claim C10. Once an identity has made a request whose lowercased path contains a trap path,
  the check reports the hit and the identity is in the trapped set; after any further run of
  the honeypot's operations, at any clock readings and for any requests, the trapped check is
  still true for every request of that identity. No operation takes an identity out.
\<close>

theorem trapped_forever:
  assumes "\<exists>t \<in> set (traps h). js_includes (toLowerCase (path req)) (fst t)"
    and "getIP req' = getIP req"
  shows "snd (HoneyPot_check h req now) = True
         \<and> isTrapped (hp_run (fst (HoneyPot_check h req now)) ops) req'"
proof -
  have "getIP req \<in> trapped (fst (HoneyPot_check h req now))"
    using assms(1) by (rule HoneyPot_check_hit)
  then have "getIP req \<in> trapped (hp_run (fst (HoneyPot_check h req now)) ops)"
    using hp_run_mono by blast
  then show ?thesis
    using assms HoneyPot_check_hit(1) by (simp add: isTrapped_def)
qed

theorem trapped_forever_witness:
  "(let req = \<lparr>headers = [''x-real-ip'' \<mapsto> ''10.9.9.9''], path = ''/API/Admin/users'', method = ''GET'',
                connection = None, socket = None\<rparr>;
        req' = \<lparr>headers = [''x-forwarded-for'' \<mapsto> ''10.9.9.9, 172.16.0.1''], path = ''/index.html'', method = ''POST'',
                connection = None, socket = None\<rparr>;
        other = \<lparr>headers = Map.empty, path = ''/.git/config'', method = ''GET'',
                connection = Some \<lparr>remoteAddress = Some ''192.168.0.7''\<rparr>, socket = None\<rparr>
    in (\<exists>t \<in> set (traps HoneyPot_new). js_includes (toLowerCase (path req)) (fst t))
       \<and> getIP req' = getIP req
       \<and> snd (HoneyPot_check HoneyPot_new req 1000) = True
       \<and> isTrapped (hp_run (fst (HoneyPot_check HoneyPot_new req 1000))
                      [Check other 2000, IsTrapped req', Check req' 3000]) req')"
proof -
  let ?req = "\<lparr>headers = [''x-real-ip'' \<mapsto> ''10.9.9.9''], path = ''/API/Admin/users'', method = ''GET'',
                connection = None, socket = None\<rparr>"
  let ?req' = "\<lparr>headers = [''x-forwarded-for'' \<mapsto> ''10.9.9.9, 172.16.0.1''], path = ''/index.html'', method = ''POST'',
                connection = None, socket = None\<rparr>"
  have h1: "\<exists>t \<in> set (traps HoneyPot_new). js_includes (toLowerCase (path ?req)) (fst t)"
    by (simp add: HoneyPot_new_def commonPaths_def toLowerCase_def js_lower_char_def)
  have h2: "getIP ?req' = getIP ?req"
    by (simp add: getIP_def js_or_def truthy_def forwarded_first_def opt_remoteAddress_def
        js_trim_def js_whitespace_def)
  show ?thesis
    unfolding Let_def using h1 h2 trapped_forever [OF h1 h2] by blast
qed

section \<open>The threat level stays within its bounds\<close>

lemma adjust_level_cases:
  "threatLevel (adjust a) = threatLevel a \<or> threatLevel (adjust a) = min 10 (threatLevel a + 1)
   \<or> threatLevel (adjust a) = max 0 (threatLevel a - 1)"
  by (simp add: adjust_def Let_def)

lemma recordMetric_level: "threatLevel (recordMetric a ty) = threatLevel a"
  by (simp add: recordMetric_def Let_def)

lemma ap_step_bounds:
  assumes "0 \<le> threatLevel a" "threatLevel a \<le> 10"
  shows "0 \<le> threatLevel (ap_step a op) \<and> threatLevel (ap_step a op) \<le> 10"
proof (cases op)
  case Adjust
  with assms adjust_level_cases [of a] show ?thesis by auto
qed (use assms in \<open>simp_all add: recordMetric_level\<close>)

lemma ap_run_bounds:
  "0 \<le> threatLevel a \<Longrightarrow> threatLevel a \<le> 10 \<Longrightarrow>
   0 \<le> threatLevel (ap_run a ops) \<and> threatLevel (ap_run a ops) \<le> 10"
  unfolding ap_run_def
  by (induction ops arbitrary: a) (simp_all add: ap_step_bounds)

lemma ap_step_change:
  assumes "0 \<le> threatLevel a" "threatLevel a \<le> 10"
  shows "\<bar>threatLevel (ap_step a op) - threatLevel a\<bar> \<le> 1"
proof (cases op)
  case Adjust
  with assms adjust_level_cases [of a] show ?thesis by auto
qed (simp_all add: recordMetric_level)

text \<open>
  Claim C6. In every state reachable from the constructor by the operations of the class, the
  threat level is an integer between 0 and 10; every operation changes it by at most 1; only
  the adjustment tick changes it at all; the tick increments it (clamped at 10) when there was
  traffic and the block rate is above 0.1 or the suspicious rate above 0.2, and decrements it
  (clamped at 0) when there was traffic and the block rate is below 0.01 and the suspicious
  rate below 0.05.
\<close>

theorem threatLevel_bounds:
  "(let s = ap_run AdaptiveProtection_new ops;
        m = metrics s;
        blockRate = (of_nat (blockedRequests m) / of_nat (totalRequests m) :: rat);
        suspiciousRate = (of_nat (suspiciousRequests m) / of_nat (totalRequests m) :: rat)
    in 0 \<le> threatLevel s \<and> threatLevel s \<le> 10
       \<and> (\<forall>op. \<bar>threatLevel (ap_step s op) - threatLevel s\<bar> \<le> 1)
       \<and> (\<forall>op. op \<noteq> Adjust \<longrightarrow> threatLevel (ap_step s op) = threatLevel s)
       \<and> (totalRequests m \<noteq> 0 \<and> (blockRate > 1 / 10 \<or> suspiciousRate > 2 / 10)
            \<longrightarrow> threatLevel (adjust s) = min 10 (threatLevel s + 1))
       \<and> (totalRequests m \<noteq> 0 \<and> \<not> (blockRate > 1 / 10 \<or> suspiciousRate > 2 / 10)
            \<and> blockRate < 1 / 100 \<and> suspiciousRate < 5 / 100
            \<longrightarrow> threatLevel (adjust s) = max 0 (threatLevel s - 1)))"
proof -
  define s where "s = ap_run AdaptiveProtection_new ops"
  have b: "0 \<le> threatLevel s \<and> threatLevel s \<le> 10"
    unfolding s_def by (rule ap_run_bounds) (simp_all add: AdaptiveProtection_new_def)
  have c: "\<bar>threatLevel (ap_step s op) - threatLevel s\<bar> \<le> 1" for op
    using b by (simp add: ap_step_change)
  have d: "op \<noteq> Adjust \<Longrightarrow> threatLevel (ap_step s op) = threatLevel s" for op
    by (cases op) (simp_all add: recordMetric_level)
  have e: "threatLevel (adjust s) = min 10 (threatLevel s + 1)"
    if "totalRequests (metrics s) \<noteq> 0"
      and "(of_nat (blockedRequests (metrics s)) / of_nat (totalRequests (metrics s)) :: rat) > 1 / 10
           \<or> (of_nat (suspiciousRequests (metrics s)) / of_nat (totalRequests (metrics s)) :: rat) > 2 / 10"
    unfolding adjust_def Let_def by (simp only: that if_False if_True) simp
  have f: "threatLevel (adjust s) = max 0 (threatLevel s - 1)"
    if "totalRequests (metrics s) \<noteq> 0"
      and "\<not> ((of_nat (blockedRequests (metrics s)) / of_nat (totalRequests (metrics s)) :: rat) > 1 / 10
           \<or> (of_nat (suspiciousRequests (metrics s)) / of_nat (totalRequests (metrics s)) :: rat) > 2 / 10)"
      and "(of_nat (blockedRequests (metrics s)) / of_nat (totalRequests (metrics s)) :: rat) < 1 / 100
           \<and> (of_nat (suspiciousRequests (metrics s)) / of_nat (totalRequests (metrics s)) :: rat) < 5 / 100"
    unfolding adjust_def Let_def by (simp only: that if_False if_True) simp
  show ?thesis
    unfolding Let_def s_def [symmetric]
    using b c d e f by blast
qed

theorem threatLevel_bounds_witness:
  "(let s = ap_run AdaptiveProtection_new
              (concat (replicate 10 [RecordMetric ''blocked'', Adjust]) @ [RecordMetric ''suspicious''])
    in threatLevel s = 10
       \<and> totalRequests (metrics s) \<noteq> 0
       \<and> (of_nat (suspiciousRequests (metrics s)) / of_nat (totalRequests (metrics s)) :: rat) > 2 / 10
       \<and> threatLevel (adjust s) = 10
       \<and> RecordMetric ''normal'' \<noteq> Adjust
       \<and> threatLevel (ap_step s (RecordMetric ''normal'')) = 10)"
proof -
  let ?ops = "concat (replicate 10 [RecordMetric ''blocked'', Adjust]) @ [RecordMetric ''suspicious'']"
  have s: "ap_run AdaptiveProtection_new ?ops
           = \<lparr>threatLevel = 10, adjustInterval = 60000,
              metrics = \<lparr>totalRequests = 1, blockedRequests = 0, suspiciousRequests = 1\<rparr>\<rparr>"
    by (simp add: ap_run_def AdaptiveProtection_new_def zero_metrics_def recordMetric_def
        adjust_def Let_def eval_nat_numeral)
  show ?thesis
    using threatLevel_bounds [of ?ops] unfolding Let_def s by (simp add: recordMetric_level)
qed

section \<open>The request history is bounded\<close>









section \<open>The scan-breadth predicate\<close>

text \<open>
  Claim C9 as stated fails: a profile of 31 requests over exactly 20 distinct paths has at
  least 20 distinct paths and more than 30 requests, and the predicate does not trigger.
\<close>

theorem scan_breadth_counterexample:
  "set_size (map r_path (requests (cycling_profile 20 31))) = 20
   \<and> length (requests (cycling_profile 20 31)) = 31
   \<and> \<not> scanning (cycling_profile 20 31)"
  unfolding scanning_def set_size_def by code_simp

lemma score_irrelevant:
  "scanning (p\<lparr>score := x\<rparr>) = scanning p"
  "methodProbing (p\<lparr>score := x\<rparr>) = methodProbing p"
  "botPattern (p\<lparr>score := x\<rparr>) = botPattern p"
  "missingHeaders (p\<lparr>score := x\<rparr>) = missingHeaders p"
  "timePattern (p\<lparr>score := x\<rparr>) = timePattern p"
  by (simp_all add: scanning_def methodProbing_def botPattern_def missingHeaders_def timePattern_def)

lemma analyze_score:
  "a_score (snd (BehaviorAnalyzer_analyze ps req now)) =
     (let p = a_profile (snd (BehaviorAnalyzer_analyze ps req now))
      in of_bool (scanning p) + of_bool (methodProbing p) + of_bool (botPattern p)
         + of_bool (missingHeaders p) + of_bool (timePattern p))"
  by (simp add: BehaviorAnalyzer_analyze_def Let_def suspiciousPatterns_def score_irrelevant)

text \<open>
  Claim C9, amended. The profiler's scan-breadth predicate triggers exactly when the number
  of distinct paths in the identity's stored history is greater than 20 and the number of
  stored requests is greater than 30; in particular it triggers for 21 distinct paths and more
  than 30 requests. The score of an analysis is the number of the five predicates that
  trigger, so a triggering scan-breadth predicate contributes 1, and the analysis is
  suspicious from score 2 on. The request tracker's scanning flag is set exactly when the
  requests of the last 60 seconds have more than 20 distinct paths, whatever their number.
\<close>

theorem scan_breadth:
  "(scanning p \<longleftrightarrow> card (set (map r_path (requests p))) > 20 \<and> length (requests p) > 30)
   \<and> (card (set (map r_path (requests p))) = 21 \<and> length (requests p) > 30 \<longrightarrow> scanning p)
   \<and> (let an = snd (BehaviorAnalyzer_analyze ps req now); q = a_profile an
       in a_score an = of_bool (scanning q) + of_bool (methodProbing q) + of_bool (botPattern q)
                       + of_bool (missingHeaders q) + of_bool (timePattern q)
          \<and> suspicious an = (a_score an \<ge> 2))
   \<and> map_option fp_scanning
         (patterns (snd (RequestFingerprint_analyze (f\<lparr>fingerprints := (fingerprints f)(key \<mapsto> d)\<rparr>) key now)))
       = Some (card (set (map r_path (filter (\<lambda>r. now - r_time r < 60000) (fp_requests d)))) > 20)"
proof -
  have a: "scanning p \<longleftrightarrow> card (set (map r_path (requests p))) > 20 \<and> length (requests p) > 30"
    by (simp add: scanning_def set_size_def)
  have b: "suspicious (snd (BehaviorAnalyzer_analyze ps req now))
           = (a_score (snd (BehaviorAnalyzer_analyze ps req now)) \<ge> 2)"
    by (simp add: BehaviorAnalyzer_analyze_def Let_def)
  have c: "map_option fp_scanning
         (patterns (snd (RequestFingerprint_analyze (f\<lparr>fingerprints := (fingerprints f)(key \<mapsto> d)\<rparr>) key now)))
       = Some (card (set (map r_path (filter (\<lambda>r. now - r_time r < 60000) (fp_requests d)))) > 20)"
    by (simp add: RequestFingerprint_analyze_def Let_def set_size_def)
  show ?thesis
    using a b c analyze_score [of ps req now] unfolding Let_def by simp
qed

theorem scan_breadth_witness:
  "card (set (map r_path (requests (cycling_profile 21 31)))) = 21
   \<and> length (requests (cycling_profile 21 31)) > 30
   \<and> scanning (cycling_profile 21 31)"
proof -
  have h: "card (set (map r_path (requests (cycling_profile 21 31)))) = 21
           \<and> length (requests (cycling_profile 21 31)) > 30"
    by code_simp
  with scan_breadth [of "cycling_profile 21 31"] show ?thesis by blast
qed

section \<open>The aggregator blocks on the score of the current call\<close>

text \<open>Unfolding sets for evaluating regular expressions and requests on concrete inputs.\<close>

lemmas rx_eval = test_i_def regexp_test_def char_matches_def class_matches_def js_upper_char_def
  js_lower_char_def word_char_def is_word_at_def js_whitespace_def line_terminator_def pos_at_def

lemmas req_eval = getIP_def getIP_socket_def js_or_def truthy_def forwarded_first_def
  opt_remoteAddress_def header_or_empty_def js_trim_def

lemma tool_ua: "isMaliciousUA ''sqlmap/1.7''"
  by (simp add: isMaliciousUA_def malicious_agents_def rx_eval)

lemma browser_ua: "\<not> isMaliciousUA ''Mozilla/5.0 (X11; Linux x86_64) Firefox/121.0''"
  by (simp add: isMaliciousUA_def malicious_agents_def rx_eval)

lemma tool_findings: "findings_of tool_request quiet_analysis = [(8, MaliciousUserAgent)]"
  by (simp add: findings_of_def tool_request_def quiet_analysis_def flag_of_def req_eval tool_ua)

lemma login_findings: "findings_of login_request brute_analysis = [(10, BruteForce)]"
  by (simp add: findings_of_def login_request_def brute_analysis_def flag_of_def req_eval browser_ua)

lemma tool_ip: "getIP tool_request = ''6.6.6.6''"
  by (simp add: tool_request_def req_eval)

lemma login_ip: "getIP login_request = ''7.7.7.7''"
  by (simp add: login_request_def req_eval)

text \<open>
  Claim C3 as stated fails in both directions. After two calls of score 8 the cumulative
  score of the identity is 16, above 10, and a third call of score 8 is still not blocked.
  A first call of score exactly 10 leaves the cumulative score at 10, not above the
  threshold, and is blocked.
\<close>

theorem blocked_counterexample:
  "getThreatLevel (assess_all ThreatDetector_new
       [(tool_request, quiet_analysis, 1000), (tool_request, quiet_analysis, 2000)]) ''6.6.6.6'' = 16
   \<and> getIP tool_request = ''6.6.6.6''
   \<and> blocked (snd (assess (assess_all ThreatDetector_new
       [(tool_request, quiet_analysis, 1000), (tool_request, quiet_analysis, 2000)])
       tool_request quiet_analysis 3000)) = False
   \<and> getThreatLevel (fst (assess (assess_all ThreatDetector_new
       [(tool_request, quiet_analysis, 1000), (tool_request, quiet_analysis, 2000)])
       tool_request quiet_analysis 3000)) ''6.6.6.6'' = 24
   \<and> getIP login_request = ''7.7.7.7''
   \<and> blocked (snd (assess ThreatDetector_new login_request brute_analysis 1000)) = True
   \<and> getThreatLevel (fst (assess ThreatDetector_new login_request brute_analysis 1000)) ''7.7.7.7'' = 10"
  by (simp add: assess_all_def assess_def ThreatDetector_new_def getThreatLevel_def
      tool_findings login_findings tool_ip login_ip Let_def)

lemma assess_threshold: "threshold (fst (assess td req a now)) = threshold td"
  by (simp add: assess_def Let_def)

lemma assess_all_threshold: "threshold (assess_all td calls) = threshold td"
  unfolding assess_all_def
  by (induction calls arbitrary: td) (auto simp: assess_threshold)

text \<open>
  Claim C3, amended. For every identity and every run of assess calls, the blocked flag of
  the returned verdict is true exactly when the score of the current call alone is at least
  the threshold of 10. That score is the sum of the weights of the tests that fire (5, 7, 10,
  8 and 3). The cumulative score of the identity grows by it and is kept across calls, but
  the blocked flag does not depend on it.
\<close>

theorem blocked_by_current_score:
  "(let td = assess_all ThreatDetector_new calls;
        ip = getIP req;
        v = snd (assess td req a now)
    in (blocked v \<longleftrightarrow> v_score v \<ge> 10)
       \<and> v_score v =
            (if flag_of a highFrequency then 5 else 0) + (if flag_of a fp_scanning then 7 else 0)
            + (if flag_of a bruteForce then 10 else 0)
            + (if isMaliciousUA (header_or_empty req ''user-agent'') then 8 else 0)
            + (if \<not> truthy (headers req ''accept'') \<or> \<not> truthy (headers req ''accept-language'')
               then 3 else 0)
       \<and> getThreatLevel (fst (assess td req a now)) ip = getThreatLevel td ip + v_score v)"
proof -
  define td where "td = assess_all ThreatDetector_new calls"
  have t: "threshold td = 10"
    by (simp add: td_def assess_all_threshold ThreatDetector_new_def)
  have b: "blocked (snd (assess td req a now)) \<longleftrightarrow> v_score (snd (assess td req a now)) \<ge> 10"
    by (simp add: assess_def Let_def t)
  have s: "v_score (snd (assess td req a now)) = sum_list (map fst (findings_of req a))"
    by (simp add: assess_def Let_def)
  have w: "sum_list (map fst (findings_of req a)) =
            (if flag_of a highFrequency then 5 else 0) + (if flag_of a fp_scanning then 7 else 0)
            + (if flag_of a bruteForce then 10 else 0)
            + (if isMaliciousUA (header_or_empty req ''user-agent'') then 8 else 0)
            + (if \<not> truthy (headers req ''accept'') \<or> \<not> truthy (headers req ''accept-language'')
               then 3 else 0)"
    unfolding findings_of_def by (simp only: map_append sum_list_append) simp
  have c: "getThreatLevel (fst (assess td req a now)) (getIP req)
           = getThreatLevel td (getIP req) + sum_list (map fst (findings_of req a))"
    by (simp add: assess_def Let_def getThreatLevel_def split: option.splits)
  show ?thesis
    unfolding Let_def td_def [symmetric] using b s w c by simp
qed

theorem blocked_by_current_score_witness:
  "v_score (snd (assess (assess_all ThreatDetector_new
       [(tool_request, quiet_analysis, 1000), (tool_request, quiet_analysis, 2000)])
       tool_request quiet_analysis 3000)) = 8
   \<and> \<not> blocked (snd (assess (assess_all ThreatDetector_new
       [(tool_request, quiet_analysis, 1000), (tool_request, quiet_analysis, 2000)])
       tool_request quiet_analysis 3000))"
proof -
  have ua: "header_or_empty tool_request ''user-agent'' = ''sqlmap/1.7''"
    by (simp add: tool_request_def header_or_empty_def truthy_def)
  have hd: "truthy (headers tool_request ''accept'') \<and> truthy (headers tool_request ''accept-language'')"
    by (simp add: tool_request_def truthy_def)
  have fl: "\<not> flag_of quiet_analysis highFrequency \<and> \<not> flag_of quiet_analysis fp_scanning
            \<and> \<not> flag_of quiet_analysis bruteForce"
    by (simp add: quiet_analysis_def flag_of_def)
  show ?thesis
    using blocked_by_current_score
      [of "[(tool_request, quiet_analysis, 1000), (tool_request, quiet_analysis, 2000)]"
          tool_request quiet_analysis 3000]
    unfolding Let_def by (simp add: ua hd fl tool_ua)
qed

section \<open>The volume limiter: a window, then a ban\<close>

lemma limiter5_state: "limiter_state limiter5 ip [] None"
  by (simp add: limiter_state_def limiter5_def DDoSProtection_new_def num_or_def stamps_def)

lemma check_admits:
  assumes "limiter_state d (getIP_socket req) ts None"
    and "\<forall>t \<in> set ts. now - t < 60000" and "length ts < 5"
  shows "limiter_state (fst (DDoSProtection_check d req now)) (getIP_socket req) (ts @ [now]) None"
    and "allowed (snd (DDoSProtection_check d req now))"
    and "remaining (snd (DDoSProtection_check d req now)) = Some (4 - int (length ts))"
  using assms
  by (auto simp: limiter_state_def DDoSProtection_check_def isBanned_def stamps_def Let_def
      split: option.splits)

lemma check_bans:
  assumes "limiter_state d (getIP_socket req) ts None"
    and "\<forall>t \<in> set ts. now - t < 60000" and "length ts = 5"
  shows "limiter_state (fst (DDoSProtection_check d req now)) (getIP_socket req) ts (Some (now + 3600000))"
    and "\<not> allowed (snd (DDoSProtection_check d req now))"
    and "retryAfter (snd (DDoSProtection_check d req now)) = Some 3600"
  using assms
  by (auto simp: limiter_state_def DDoSProtection_check_def isBanned_def stamps_def Let_def ban_def
      split: option.splits)

lemma check_while_banned:
  assumes "limiter_state d (getIP_socket req) ts (Some u)" and "u \<noteq> 0" and "now \<le> u"
  shows "\<not> allowed (snd (DDoSProtection_check d req now))"
  using assms
  by (auto simp: limiter_state_def DDoSProtection_check_def isBanned_def Let_def)

lemma check_after_ban:
  assumes "limiter_state d (getIP_socket req) ts (Some u)" and "u < now"
    and "\<forall>t \<in> set ts. 60000 \<le> now - t"
  shows "allowed (snd (DDoSProtection_check d req now))"
proof -
  have "filter (\<lambda>t. now - t < 60000) ts = []"
    using assms(3) by (auto simp: filter_empty_conv)
  with assms(1,2) show ?thesis
    by (auto simp: limiter_state_def DDoSProtection_check_def isBanned_def stamps_def Let_def
        split: option.splits)
qed

text \<open>
  Claim C2 as stated fails in its last part. With limit 5 and window 60000 ms, six checks at
  0 to 5 ms give five admissions and a refusal; a check at 70000 ms, after the window has
  passed, is refused too: the sixth check banned the identity for an hour.
\<close>

theorem limiter_counterexample:
  "map allowed (snd (checks limiter5 plain_request [0, 1, 2, 3, 4, 5]))
     = [True, True, True, True, True, False]
   \<and> allowed (snd (DDoSProtection_check (fst (checks limiter5 plain_request [0, 1, 2, 3, 4, 5]))
                    plain_request 70000)) = False"
  by (simp add: limiter5_def DDoSProtection_new_def num_or_def DDoSProtection_check_def isBanned_def ban_def Let_def plain_request_def
   getIP_socket_def js_or_def truthy_def forwarded_first_def js_trim_def js_whitespace_def)

lemma checks_Cons:
  "checks d req (t # ts) =
     (fst (checks (fst (DDoSProtection_check d req t)) req ts),
      snd (DDoSProtection_check d req t) # snd (checks (fst (DDoSProtection_check d req t)) req ts))"
  by (simp split: prod.splits)

text \<open>
  Claim C2, amended. For the limiter with limit 5 and window 60000 ms (and the default ban
  of 3600000 ms), for any identity starting from the empty state: five checks within the
  window are all admitted, with 4, 3, 2, 1 and 0 requests remaining; a sixth check within the
  window is refused with a retry-after of 3600 seconds and bans the identity; a later check
  is admitted exactly when it comes more than 3600000 ms after the sixth, that is once the ban
  has expired, and not already when the window has passed.
\<close>

theorem limiter_window_and_ban:
  assumes "0 \<le> t1" and "t1 \<le> t2" and "t2 \<le> t3" and "t3 \<le> t4" and "t4 \<le> t5" and "t5 \<le> t6"
    and "t6 - t1 < 60000" and "t6 \<le> t7"
  shows "map allowed (snd (checks limiter5 req [t1, t2, t3, t4, t5, t6]))
           = [True, True, True, True, True, False]
         \<and> map remaining (snd (checks limiter5 req [t1, t2, t3, t4, t5]))
           = [Some 4, Some 3, Some 2, Some 1, Some 0]
         \<and> map retryAfter (snd (checks limiter5 req [t1, t2, t3, t4, t5, t6]))
           = [None, None, None, None, None, Some 3600]
         \<and> (allowed (snd (DDoSProtection_check (fst (checks limiter5 req [t1, t2, t3, t4, t5, t6])) req t7))
              \<longleftrightarrow> t6 + 3600000 < t7)"
proof -
  let ?ip = "getIP_socket req"
  define d1 where "d1 = fst (DDoSProtection_check limiter5 req t1)"
  define d2 where "d2 = fst (DDoSProtection_check d1 req t2)"
  define d3 where "d3 = fst (DDoSProtection_check d2 req t3)"
  define d4 where "d4 = fst (DDoSProtection_check d3 req t4)"
  define d5 where "d5 = fst (DDoSProtection_check d4 req t5)"
  define d6 where "d6 = fst (DDoSProtection_check d5 req t6)"
  note ds = d1_def d2_def d3_def d4_def d5_def d6_def
  have s0: "limiter_state limiter5 ?ip [] None" by (rule limiter5_state)
  have s1: "limiter_state d1 ?ip [t1] None"
    and a1: "allowed (snd (DDoSProtection_check limiter5 req t1))"
    and r1: "remaining (snd (DDoSProtection_check limiter5 req t1)) = Some 4"
    using check_admits [OF s0, of t1] by (simp_all add: d1_def)
  have s2: "limiter_state d2 ?ip [t1, t2] None"
    and a2: "allowed (snd (DDoSProtection_check d1 req t2))"
    and r2: "remaining (snd (DDoSProtection_check d1 req t2)) = Some 3"
    using check_admits [OF s1, of t2] assms by (simp_all add: d2_def)
  have s3: "limiter_state d3 ?ip [t1, t2, t3] None"
    and a3: "allowed (snd (DDoSProtection_check d2 req t3))"
    and r3: "remaining (snd (DDoSProtection_check d2 req t3)) = Some 2"
    using check_admits [OF s2, of t3] assms by (simp_all add: d3_def)
  have s4: "limiter_state d4 ?ip [t1, t2, t3, t4] None"
    and a4: "allowed (snd (DDoSProtection_check d3 req t4))"
    and r4: "remaining (snd (DDoSProtection_check d3 req t4)) = Some 1"
    using check_admits [OF s3, of t4] assms by (simp_all add: d4_def)
  have s5: "limiter_state d5 ?ip [t1, t2, t3, t4, t5] None"
    and a5: "allowed (snd (DDoSProtection_check d4 req t5))"
    and r5: "remaining (snd (DDoSProtection_check d4 req t5)) = Some 0"
    using check_admits [OF s4, of t5] assms by (simp_all add: d5_def)
  have s6: "limiter_state d6 ?ip [t1, t2, t3, t4, t5] (Some (t6 + 3600000))"
    and a6: "\<not> allowed (snd (DDoSProtection_check d5 req t6))"
    and r6: "retryAfter (snd (DDoSProtection_check d5 req t6)) = Some 3600"
    using check_bans [OF s5, of t6] assms by (simp_all add: d6_def)
  have n: "retryAfter (snd (DDoSProtection_check d req t)) = None"
    if "allowed (snd (DDoSProtection_check d req t))" for d t
    using that
    by (auto simp: DDoSProtection_check_def Let_def split: if_splits prod.splits bool.splits)
  have a7: "allowed (snd (DDoSProtection_check d6 req t7)) \<longleftrightarrow> t6 + 3600000 < t7"
  proof (cases "t6 + 3600000 < t7")
    case True
    with check_after_ban [OF s6, of t7] assms show ?thesis by simp
  next
    case False
    with check_while_banned [OF s6, of t7] assms show ?thesis by simp
  qed
  have fin: "fst (checks limiter5 req [t1, t2, t3, t4, t5, t6]) = d6"
    by (simp only: checks_Cons checks.simps fst_conv ds)
  have res: "snd (checks limiter5 req [t1, t2, t3, t4, t5, t6])
      = [snd (DDoSProtection_check limiter5 req t1), snd (DDoSProtection_check d1 req t2),
         snd (DDoSProtection_check d2 req t3), snd (DDoSProtection_check d3 req t4),
         snd (DDoSProtection_check d4 req t5), snd (DDoSProtection_check d5 req t6)]"
    by (simp only: checks_Cons checks.simps fst_conv snd_conv ds)
  have res5: "snd (checks limiter5 req [t1, t2, t3, t4, t5])
      = [snd (DDoSProtection_check limiter5 req t1), snd (DDoSProtection_check d1 req t2),
         snd (DDoSProtection_check d2 req t3), snd (DDoSProtection_check d3 req t4),
         snd (DDoSProtection_check d4 req t5)]"
    by (simp only: checks_Cons checks.simps fst_conv snd_conv ds)
  show ?thesis
    unfolding fin res res5
    using a1 a2 a3 a4 a5 a6 r1 r2 r3 r4 r5 r6 a7 n by simp
qed

theorem limiter_window_and_ban_witness:
  "(0::int) \<le> 1000 \<and> (1000::int) \<le> 2000 \<and> (60500::int) - 1000 < 60000 \<and> (60500::int) \<le> 3660501
   \<and> map allowed (snd (checks limiter5 plain_request [1000, 2000, 3000, 4000, 5000, 60500]))
           = [True, True, True, True, True, False]
   \<and> allowed (snd (DDoSProtection_check
          (fst (checks limiter5 plain_request [1000, 2000, 3000, 4000, 5000, 60500])) plain_request 3660501))"
  using limiter_window_and_ban [of 1000 2000 3000 4000 5000 60500 3660501 plain_request]
  by simp

section \<open>The token bucket refills in proportion to the time elapsed\<close>





section \<open>The user-agent checks\<close>

lemma lit_match_prefix:
  "lit_match True w (p, s) \<noteq> None \<longleftrightarrow> prefix (map js_upper_char w) (map js_upper_char s)"
proof (induction w arbitrary: p s)
  case Nil
  show ?case by simp
next
  case (Cons a w)
  show ?case
  proof (cases s)
    case Nil
    then show ?thesis by simp
  next
    case (Cons c cs)
    with Cons.IH [of "Some c" cs] show ?thesis by (simp add: char_matches_def)
  qed
qed

lemma search_lit:
  "rx_search True (Lit w) (p, s) \<noteq> None \<longleftrightarrow> contains_ci s w"
proof (induction s arbitrary: p)
  case Nil
  have "lit_match True w (p, []) \<noteq> None \<longleftrightarrow> w = []"
    by (cases w) simp_all
  then show ?case
    by (auto simp: contains_ci_def split: option.splits)
next
  case (Cons c cs)
  have m: "rx_match True (Lit w) (p, c # cs) (\<lambda>q. Some (length (snd q))) \<noteq> None
           \<longleftrightarrow> prefix (map js_upper_char w) (map js_upper_char (c # cs))"
    using lit_match_prefix [of w p "c # cs"] by (auto split: option.splits)
  show ?case
  proof (cases "rx_match True (Lit w) (p, c # cs) (\<lambda>q. Some (length (snd q)))")
    case None
    with m Cons.IH [of "Some c"] show ?thesis
      by (simp add: contains_ci_def)
  next
    case (Some n)
    with m show ?thesis by (simp add: contains_ci_def)
  qed
qed

lemma test_i_lit: "test_i (Lit w) ua \<longleftrightarrow> contains_ci ua w"
  using search_lit [of w None ua] by (simp add: test_i_def regexp_test_def)

lemma match_alt_total:
  "rx_match ic (Alt a b) q (\<lambda>q. Some (f q)) \<noteq> None
   \<longleftrightarrow> rx_match ic a q (\<lambda>q. Some (f q)) \<noteq> None \<or> rx_match ic b q (\<lambda>q. Some (f q)) \<noteq> None"
  by (auto split: option.splits)

lemma search_alt:
  "rx_search ic (Alt a b) (p, s) \<noteq> None
   \<longleftrightarrow> rx_search ic a (p, s) \<noteq> None \<or> rx_search ic b (p, s) \<noteq> None"
proof (induction s arbitrary: p)
  case Nil
  show ?case by (auto split: option.splits)
next
  case (Cons c cs)
  show ?case using Cons.IH [of "Some c"]
    by (auto split: option.splits)
qed

lemma test_i_alt: "test_i (Alt a b) ua \<longleftrightarrow> test_i a ua \<or> test_i b ua"
  using search_alt [of True a b None ua] by (simp add: test_i_def regexp_test_def)

lemma test_bot_words:
  "test_i bot_words ua \<longleftrightarrow> matches_any [''bot'', ''crawler'', ''spider'', ''scraper''] ua"
  by (simp add: bot_words_def test_i_alt test_i_lit matches_any_def)

lemma any_pattern: "list_ex (\<lambda>w. test_i (Lit w) ua) ws \<longleftrightarrow> matches_any ws ua"
  by (simp add: matches_any_def test_i_lit)


lemma short_ua_no_match: "\<not> matches_any userAgents ''Mozilla/5''"
  by (simp add: matches_any_def userAgents_def contains_ci_def js_upper_char_def)

lemma no_ua_score: "calculateBotScore BotDetector_new no_ua_request now = 5"
  by (simp add: calculateBotScore_def userAgent_score_def header_checks_def checkRequestPattern_def
      BotDetector_new_def no_ua_request_def header_or_empty_def truthy_def)

text \<open>
  Claim C4 as stated fails. The profiler's bot pattern is true for the nine-character
  user-agent "Mozilla/5", which is not empty and matches no entry of the list; and the bot
  detector does not classify a request without a user-agent as a bot when its other headers
  are those of a browser (its score is 5, the bar is above 7).
\<close>

theorem bot_matcher_counterexample:
  "userAgent short_ua_profile = Some ''Mozilla/5''
   \<and> \<not> matches_any userAgents ''Mozilla/5''
   \<and> botPattern short_ua_profile = True
   \<and> headers no_ua_request ''user-agent'' = None
   \<and> isBot (snd (detect BotDetector_new no_ua_request 1000)) = False"
proof -
  have "headers no_ua_request ''user-agent'' = None"
    by (simp add: no_ua_request_def)
  moreover have "isBot (snd (detect BotDetector_new no_ua_request 1000)) = False"
    by (simp add: no_ua_score detect_def Let_def)
  moreover have "userAgent short_ua_profile = Some ''Mozilla/5''" "botPattern short_ua_profile = True"
    by (simp_all add: botPattern_def short_ua_profile_def truthy_def)
  ultimately show ?thesis
    using short_ua_no_match by blast
qed

text \<open>
  Claim C4, amended. The bot detector's user-agent check scores 5 for an empty or absent
  user-agent, 3 for one that contains, without regard to case, any entry of its list of 14
  crawler, scripting-client and tooling words, and 0 for every other; a request is
  classified as a bot exactly when its whole score (with one point per failed header check
  and two for a recently flagged identity) is above 7. The profiler's bot pattern is true
  exactly for a user-agent that is empty or absent, shorter than 10 characters, or contains
  one of bot, crawler, spider, scraper without regard to case.
\<close>

theorem bot_user_agent:
  "(userAgent_score ua = (if ua = [] then 5 else if matches_any userAgents ua then 3 else 0))
   \<and> (botPattern p \<longleftrightarrow>
        \<not> truthy (userAgent p) \<or> length (the (userAgent p)) < 10
        \<or> matches_any [''bot'', ''crawler'', ''spider'', ''scraper''] (the (userAgent p)))
   \<and> (let v = snd (detect bd req now)
       in (isBot v \<longleftrightarrow> bot_score v > 7)
          \<and> bot_score v = userAgent_score (header_or_empty req ''user-agent'')
                + (if truthy (headers req ''accept'') then 0 else 1)
                + (if truthy (headers req ''accept-language'') then 0 else 1)
                + (if truthy (headers req ''accept-encoding'') then 0 else 1)
                + (if headers req ''connection'' = Some ''close'' then 1 else 0)
                + (if checkRequestPattern bd req now then 2 else 0))"
proof -
  have a: "userAgent_score ua = (if ua = [] then 5 else if matches_any userAgents ua then 3 else 0)"
    by (simp add: userAgent_score_def any_pattern)
  have b: "botPattern p \<longleftrightarrow>
        \<not> truthy (userAgent p) \<or> length (the (userAgent p)) < 10
        \<or> matches_any [''bot'', ''crawler'', ''spider'', ''scraper''] (the (userAgent p))"
    by (auto simp: botPattern_def Let_def test_bot_words truthy_def split: option.splits)
  have c: "isBot (snd (detect bd req now)) \<longleftrightarrow> bot_score (snd (detect bd req now)) > 7"
    by (simp add: detect_def Let_def)
  have d: "bot_score (snd (detect bd req now)) = userAgent_score (header_or_empty req ''user-agent'')
                + (if truthy (headers req ''accept'') then 0 else 1)
                + (if truthy (headers req ''accept-language'') then 0 else 1)
                + (if truthy (headers req ''accept-encoding'') then 0 else 1)
                + (if headers req ''connection'' = Some ''close'' then 1 else 0)
                + (if checkRequestPattern bd req now then 2 else 0)"
    by (simp add: detect_def Let_def calculateBotScore_def header_checks_def)
  show ?thesis
    unfolding Let_def using a b c d by blast
qed

lemma browser_no_match:
  "\<not> matches_any userAgents
      ''Mozilla/5.0 (Windows NT 10.0; Win64; x64) AppleWebKit/537.36 (KHTML, like Gecko) Chrome/120.0.0.0 Safari/537.36''"
  by (simp add: matches_any_def userAgents_def contains_ci_def js_upper_char_def)

theorem bot_user_agent_witness:
  "userAgent_score ''curl/8.4.0'' = 3
   \<and> userAgent_score
       ''Mozilla/5.0 (Windows NT 10.0; Win64; x64) AppleWebKit/537.36 (KHTML, like Gecko) Chrome/120.0.0.0 Safari/537.36'' = 0
   \<and> \<not> isBot (snd (detect BotDetector_new browser_request 1000))"
proof -
  have m: "matches_any userAgents ''curl/8.4.0''"
    by (simp add: matches_any_def userAgents_def contains_ci_def js_upper_char_def)
  have h: "header_or_empty browser_request ''user-agent''
      = ''Mozilla/5.0 (Windows NT 10.0; Win64; x64) AppleWebKit/537.36 (KHTML, like Gecko) Chrome/120.0.0.0 Safari/537.36''"
    "truthy (headers browser_request ''accept'')" "truthy (headers browser_request ''accept-language'')"
    "truthy (headers browser_request ''accept-encoding'')"
    "headers browser_request ''connection'' \<noteq> Some ''close''"
    "\<not> checkRequestPattern BotDetector_new browser_request 1000"
    by (simp_all add: browser_request_def header_or_empty_def truthy_def checkRequestPattern_def
        BotDetector_new_def)
  show ?thesis
    using bot_user_agent [of "''curl/8.4.0''" short_ua_profile BotDetector_new browser_request 1000]
      bot_user_agent [of "''Mozilla/5.0 (Windows NT 10.0; Win64; x64) AppleWebKit/537.36 (KHTML, like Gecko) Chrome/120.0.0.0 Safari/537.36''"
         short_ua_profile BotDetector_new browser_request 1000]
    unfolding Let_def by (simp add: m h browser_no_match)
qed

section \<open>The payload scanner and the state of its expressions\<close>

text \<open>The passes of a scan over the whole signature table, evaluated: a new scanner finds
  the script pattern in the script payload; the table this leaves finds nothing, neither in
  the same payload nor in the payload behind two more characters.\<close>

lemma first_pass:
  "scan_types loadSignatures (map fst loadSignatures) script_payload
   = (after_script, [\<lparr>f_type = ''xss'', f_pattern = script_rx\<rparr>])"
  by code_simp

lemma second_pass:
  "scan_types after_script (map fst after_script) script_payload = (loadSignatures, [])"
  by code_simp

lemma second_pass_padded:
  "scan_types after_script (map fst after_script) padded_payload = (loadSignatures, [])"
  by code_simp

lemma first_scan:
  "scan md5 PayloadScanner_new script_payload ''all'' t0
   = (\<lparr>signatures = after_script,
       cache = [md5 script_payload \<mapsto>
                  \<lparr>c_result = \<lparr>malicious = True,
                                findings = Some [\<lparr>f_type = ''xss'', f_pattern = script_rx\<rparr>],
                                s_confidence = Some (4 / 10)\<rparr>,
                   c_time = t0\<rparr>],
       cacheTimeout = 300000\<rparr>,
      \<lparr>malicious = True, findings = Some [\<lparr>f_type = ''xss'', f_pattern = script_rx\<rparr>],
       s_confidence = Some (4 / 10)\<rparr>)"
  by (simp add: scan_def PayloadScanner_new_def first_pass Let_def calculateConfidence_def)
    (simp add: script_payload_def)

lemma rescan_expired:
  "snd (scan md5 (fst (scan md5 PayloadScanner_new script_payload ''all'' t0)) script_payload ''all''
          (t0 + 300000))
   = \<lparr>malicious = False, findings = Some [], s_confidence = Some 0\<rparr>"
  unfolding first_scan fst_conv
  by (simp add: scan_def second_pass Let_def calculateConfidence_def) (simp add: script_payload_def)

lemma rescan_cached:
  "t1 - t0 < 300000 \<Longrightarrow>
   scan md5 (fst (scan md5 PayloadScanner_new script_payload ''all'' t0)) script_payload ''all'' t1
   = scan md5 PayloadScanner_new script_payload ''all'' t0"
  unfolding first_scan fst_conv
  by (simp add: scan_def Let_def) (simp add: script_payload_def)

lemma scan_padded:
  "md5 padded_payload \<noteq> md5 script_payload \<Longrightarrow>
   snd (scan md5 (fst (scan md5 PayloadScanner_new script_payload ''all'' t0))
          padded_payload ''all'' t1)
   = \<lparr>malicious = False, findings = Some [], s_confidence = Some 0\<rparr>"
  unfolding first_scan fst_conv
  by (simp add: scan_def second_pass_padded Let_def calculateConfidence_def)
    (simp add: padded_payload_def)

text \<open>
  Claim C8, at the inputs where the scanner departs from it. A new scanner reports the
  script payload as malicious with a finding of type xss. The expressions carry the flag
  \<^verbatim>\<open>g\<close> and are shared by all scans, so the script pattern now starts its next test at
  index 25. Scanning the same payload again once the cache entry has expired (300000 ms
  later), or at once a payload that holds the script behind two more characters (and so has
  another cache key), yields a result that is not malicious and has no xss finding.
\<close>

theorem rescan_misses_script:
  "(let first = scan md5 PayloadScanner_new script_payload ''all'' t0;
        again = scan md5 (fst first) script_payload ''all'' (t0 + 300000);
        padded = scan md5 (fst first) padded_payload ''all'' (t0 + 1)
    in malicious (snd first) \<and> has_finding (snd first) ''xss''
       \<and> \<not> malicious (snd again) \<and> \<not> has_finding (snd again) ''xss''
       \<and> (md5 padded_payload \<noteq> md5 script_payload
            \<longrightarrow> \<not> malicious (snd padded) \<and> \<not> has_finding (snd padded) ''xss''))"
  unfolding Let_def
  using rescan_expired [of md5 t0] scan_padded [of md5 t0 "t0 + 1"]
  by (simp add: first_scan has_finding_def)

theorem rescan_misses_script_witness:
  "padded_payload \<noteq> script_payload
   \<and> malicious (snd (scan (\<lambda>s. s) PayloadScanner_new script_payload ''all'' 0))
   \<and> \<not> malicious (snd (scan (\<lambda>s. s) (fst (scan (\<lambda>s. s) PayloadScanner_new script_payload ''all'' 0))
                          script_payload ''all'' 300000))
   \<and> \<not> malicious (snd (scan (\<lambda>s. s) (fst (scan (\<lambda>s. s) PayloadScanner_new script_payload ''all'' 0))
                          padded_payload ''all'' 1))"
proof -
  have h: "padded_payload \<noteq> script_payload"
    by (simp add: padded_payload_def script_payload_def)
  with rescan_misses_script [of "\<lambda>s. s" 0] show ?thesis
    unfolding Let_def by simp
qed

text \<open>
  What does hold. A new scanner reports every string that contains the script payload, with
  a finding of type xss; and a scan repeated while the cache entry of its input is younger
  than the timeout returns the cached result and leaves the scanner as it is.
\<close>

lemma script_match:
  "rx_match True script_rx (p, script_payload @ post) (\<lambda>q. Some (f q)) \<noteq> None"
  by (simp add: script_rx_def script_payload_def char_matches_def class_matches_def js_upper_char_def)

lemma search_finds:
  assumes "\<And>p. rx_match ic r (p, rest) (\<lambda>q. Some (length (snd q))) \<noteq> None"
  shows "rx_search ic r (p, pre @ rest) \<noteq> None"
proof (induction pre arbitrary: p)
  case Nil
  show ?case using assms [of p] by (cases rest) (auto split: option.splits)
next
  case (Cons c pre)
  show ?case using Cons.IH [of "Some c"] by (auto split: option.splits)
qed

lemma script_test:
  "snd (regexp_test (gi script_rx) (pre @ script_payload @ post)) = True"
proof -
  have "rx_search True script_rx (None, pre @ script_payload @ post) \<noteq> None"
    by (rule search_finds) (rule script_match)
  then show ?thesis
    by (auto simp: regexp_test_def gi_def pos_at_def split: option.splits)
qed

lemma scan_types_xss:
  "\<exists>sigs' fs. scan_types loadSignatures (map fst loadSignatures) (pre @ script_payload @ post)
     = (sigs', \<lparr>f_type = ''xss'', f_pattern = script_rx\<rparr> # fs)"
proof -
  let ?s = "pre @ script_payload @ post"
  have x: "xss = gi script_rx # tl xss" by (simp add: xss_def script_rx_def)
  obtain re' where t: "regexp_test (gi script_rx) ?s = (re', True)"
    using script_test [of pre post] by (cases "regexp_test (gi script_rx) ?s") auto
  have pt: "pattern (gi script_rx) = script_rx" by (simp add: gi_def)
  have "\<exists>res' fs. scan_patterns ''xss'' xss ?s = (res', \<lparr>f_type = ''xss'', f_pattern = script_rx\<rparr> # fs)"
    by (subst x) (auto simp: t pt split: prod.splits)
  then obtain res' fs where p: "scan_patterns ''xss'' xss ?s = (res', \<lparr>f_type = ''xss'', f_pattern = script_rx\<rparr> # fs)"
    by blast
  have l: "loadSignatures = (''xss'', xss) # tl loadSignatures" by (simp add: loadSignatures_def)
  have m: "map fst loadSignatures = ''xss'' # map fst (tl loadSignatures)"
    by (subst l) simp
  have mo: "map_of loadSignatures ''xss'' = Some xss" by (subst l) simp
  show ?thesis
    unfolding m by (auto simp: mo p split: prod.splits)
qed

lemma fresh_scan_detects:
  "malicious (snd (scan md5 PayloadScanner_new (pre @ script_payload @ post) ''all'' now))
   \<and> has_finding (snd (scan md5 PayloadScanner_new (pre @ script_payload @ post) ''all'' now)) ''xss''"
proof -
  obtain sigs' fs where "scan_types loadSignatures (map fst loadSignatures) (pre @ script_payload @ post)
     = (sigs', \<lparr>f_type = ''xss'', f_pattern = script_rx\<rparr> # fs)"
    using scan_types_xss by blast
  moreover have "pre @ script_payload @ post \<noteq> []" by (simp add: script_payload_def)
  ultimately show ?thesis
    by (simp add: scan_def PayloadScanner_new_def Let_def has_finding_def)
qed

lemma scan_timeout: "cacheTimeout (fst (scan md5 sc s ty t)) = cacheTimeout sc"
  by (auto simp: scan_def Let_def split: option.splits prod.splits)

lemma scan_entry:
  assumes "s \<noteq> []"
  shows "\<exists>e. cache (fst (scan md5 sc s ty t)) (md5 s) = Some e \<and> c_result e = snd (scan md5 sc s ty t)
           \<and> (c_time e = t \<or> (cache sc (md5 s) = Some e \<and> t - c_time e < cacheTimeout sc))"
  using assms by (auto simp: scan_def Let_def split: option.splits prod.splits)

lemma scan_hit:
  assumes "cache sc (md5 s) = Some e" and "t - c_time e < cacheTimeout sc" and "s \<noteq> []"
  shows "scan md5 sc s ty t = (sc, c_result e)"
  using assms by (simp add: scan_def Let_def)

lemma scan_twice_cached:
  assumes "cache (fst (scan md5 sc s ty t1)) (md5 s) = Some e" and "t2 - c_time e < cacheTimeout sc"
  shows "scan md5 (fst (scan md5 sc s ty t1)) s ty' t2
         = (fst (scan md5 sc s ty t1), snd (scan md5 sc s ty t1))"
proof (cases "s = []")
  case True
  then show ?thesis by (simp add: scan_def)
next
  case False
  from scan_entry [OF False, of md5 sc ty t1] assms(1)
  have r: "c_result e = snd (scan md5 sc s ty t1)" by auto
  have "scan md5 (fst (scan md5 sc s ty t1)) s ty' t2 = (fst (scan md5 sc s ty t1), c_result e)"
    using assms False by (intro scan_hit) (simp_all add: scan_timeout)
  with r show ?thesis by simp
qed

text \<open>
  The clean input stays clean. An expression that matches nowhere in a string fails on it
  from every \<^verbatim>\<open>lastIndex\<close>, a scan changes nothing in the table but these indices, and a
  cached result is malicious only if some expression matches its input. So after any run of
  scans, a scan of "hello world" is not malicious, provided no other input shares its digest.
\<close>

lemma search_suffix:
  "rx_search ic r (p, xs @ ys) = None \<Longrightarrow>
   rx_search ic r (if xs = [] then p else Some (last xs), ys) = None"
proof (induction xs arbitrary: p)
  case Nil
  then show ?case by simp
next
  case (Cons c xs)
  from Cons.prems have "rx_search ic r (Some c, xs @ ys) = None"
    by (auto split: option.splits)
  from Cons.IH [OF this] show ?case by (cases xs) auto
qed

lemma search_from_index:
  assumes "rx_search ic r (None, s) = None" and "i \<le> length s"
  shows "rx_search ic r (pos_at s i) = None"
proof -
  have "rx_search ic r (None, take i s @ drop i s) = None" using assms(1) by simp
  from search_suffix [OF this]
  have "rx_search ic r (if take i s = [] then None else Some (last (take i s)), drop i s) = None" .
  moreover have "(if take i s = [] then None else Some (last (take i s)))
                 = (if i = 0 then None else Some (s ! (i - 1)))"
    using assms(2) by (cases "i = 0") (auto simp: last_conv_nth min_def)
  ultimately show ?thesis by (simp add: pos_at_def)
qed

lemma silent_test:
  assumes "silent s re"
  shows "snd (regexp_test re s) = False"
proof (cases "global re \<and> lastIndex re \<le> length s")
  case True
  with assms search_from_index [of "ignoreCase re" "pattern re" s "lastIndex re"]
  show ?thesis by (simp add: regexp_test_def silent_def)
next
  case False
  with assms show ?thesis by (auto simp: regexp_test_def silent_def)
qed

lemma test_rewind: "(fst (regexp_test re s))\<lparr>lastIndex := 0\<rparr> = re\<lparr>lastIndex := 0\<rparr>"
  by (auto simp: regexp_test_def split: option.splits)

lemma scan_patterns_Cons:
  "scan_patterns ty (re # res) s
   = (fst (regexp_test re s) # fst (scan_patterns ty res s),
      (if snd (regexp_test re s) then [\<lparr>f_type = ty, f_pattern = pattern re\<rparr>] else [])
      @ snd (scan_patterns ty res s))"
  by (simp split: prod.splits)

lemma scan_patterns_rewind:
  "map (\<lambda>re. re\<lparr>lastIndex := 0\<rparr>) (fst (scan_patterns ty res s)) = map (\<lambda>re. re\<lparr>lastIndex := 0\<rparr>) res"
  by (induction res) (simp_all add: scan_patterns_Cons test_rewind del: scan_patterns.simps(2))

lemma scan_patterns_silent:
  "list_all (silent s) res \<Longrightarrow> snd (scan_patterns ty res s) = []"
  by (induction res) (simp_all add: scan_patterns_Cons silent_test del: scan_patterns.simps(2))

lemma silent_rewind: "silent s (re\<lparr>lastIndex := 0\<rparr>) = silent s re"
  by (simp add: silent_def)

lemma quiet_rewind: "quiet (rewind sigs) s = quiet sigs s"
  by (simp add: quiet_def rewind_def list_all_iff silent_rewind)

lemma put_absent: "ty \<notin> fst ` set sigs \<Longrightarrow> put_patterns sigs ty res' = sigs"
  by (induction sigs) (auto simp: put_patterns_def)

lemma put_keys: "map fst (put_patterns sigs ty res') = map fst sigs"
  by (induction sigs) (auto simp: put_patterns_def)

lemma rewind_put:
  "distinct (map fst sigs) \<Longrightarrow> map_of sigs ty = Some res \<Longrightarrow>
   map (\<lambda>re. re\<lparr>lastIndex := 0\<rparr>) res' = map (\<lambda>re. re\<lparr>lastIndex := 0\<rparr>) res \<Longrightarrow>
   rewind (put_patterns sigs ty res') = rewind sigs"
proof (induction sigs)
  case Nil
  then show ?case by simp
next
  case (Cons kv sigs)
  show ?case
  proof (cases "fst kv = ty")
    case True
    with Cons.prems have "ty \<notin> fst ` set sigs" "snd kv = res" by auto
    with True Cons.prems(3) put_absent [of ty sigs res'] show ?thesis
      by (cases kv) (simp add: rewind_def put_patterns_def)
  next
    case False
    with Cons show ?thesis
      by (cases kv) (simp add: rewind_def put_patterns_def)
  qed
qed

lemma scan_types_None:
  "map_of sigs ty = None \<Longrightarrow> scan_types sigs (ty # tys) s = scan_types sigs tys s"
  by simp

lemma scan_types_Some:
  "map_of sigs ty = Some res \<Longrightarrow>
   scan_types sigs (ty # tys) s
   = (fst (scan_types (put_patterns sigs ty (fst (scan_patterns ty res s))) tys s),
      snd (scan_patterns ty res s)
      @ snd (scan_types (put_patterns sigs ty (fst (scan_patterns ty res s))) tys s))"
  by (simp split: prod.splits)

lemma scan_types_rewind:
  "distinct (map fst sigs) \<Longrightarrow> rewind (fst (scan_types sigs tys s)) = rewind sigs"
proof (induction tys arbitrary: sigs)
  case Nil
  show ?case by simp
next
  case (Cons ty tys)
  show ?case
  proof (cases "map_of sigs ty")
    case None
    with Cons show ?thesis by (simp only: scan_types_None)
  next
    case (Some res)
    let ?put = "put_patterns sigs ty (fst (scan_patterns ty res s))"
    have "rewind (fst (scan_types ?put tys s)) = rewind ?put"
      using Cons.prems by (intro Cons.IH) (simp add: put_keys)
    also have "\<dots> = rewind sigs"
      using Cons.prems Some by (rule rewind_put) (rule scan_patterns_rewind)
    finally show ?thesis by (simp only: scan_types_Some [OF Some] fst_conv)
  qed
qed

lemma quiet_lookup: "quiet sigs s \<Longrightarrow> map_of sigs ty = Some res \<Longrightarrow> list_all (silent s) res"
  by (auto simp: quiet_def list_all_iff dest!: map_of_SomeD)

lemma scan_types_quiet:
  "distinct (map fst sigs) \<Longrightarrow> quiet sigs s \<Longrightarrow> snd (scan_types sigs tys s) = []"
proof (induction tys arbitrary: sigs)
  case Nil
  show ?case by simp
next
  case (Cons ty tys)
  show ?case
  proof (cases "map_of sigs ty")
    case None
    with Cons show ?thesis by (simp only: scan_types_None)
  next
    case (Some res)
    let ?put = "put_patterns sigs ty (fst (scan_patterns ty res s))"
    have "rewind ?put = rewind sigs"
      using Cons.prems(1) Some by (rule rewind_put) (rule scan_patterns_rewind)
    then have "quiet ?put s"
      using Cons.prems(2) quiet_rewind [of ?put s] quiet_rewind [of sigs s] by simp
    then have "snd (scan_types ?put tys s) = []"
      using Cons.prems(1) by (intro Cons.IH) (simp_all add: put_keys)
    moreover have "snd (scan_patterns ty res s) = []"
      using Cons.prems(2) Some by (intro scan_patterns_silent) (rule quiet_lookup)
    ultimately show ?thesis by (simp only: scan_types_Some [OF Some] snd_conv append_Nil)
  qed
qed

lemma rewind_keys: "map fst (rewind sigs) = map fst sigs"
  by (simp add: rewind_def o_def)

lemma inv_distinct: "rewind sigs = loadSignatures \<Longrightarrow> distinct (map fst sigs)"
proof -
  assume "rewind sigs = loadSignatures"
  then have "map fst sigs = map fst loadSignatures" using rewind_keys [of sigs] by simp
  then show ?thesis by (simp add: loadSignatures_def)
qed

lemma scanner_inv_new: "scanner_inv md5 PayloadScanner_new"
proof -
  have "rewind loadSignatures = loadSignatures" by code_simp
  then show ?thesis by (simp add: scanner_inv_def PayloadScanner_new_def)
qed

lemma scanner_inv_scan:
  assumes "scanner_inv md5 sc"
  shows "scanner_inv md5 (fst (scan md5 sc s ty t))"
proof -
  from assms have rw: "rewind (signatures sc) = loadSignatures"
    and ch: "\<And>k e. cache sc k = Some e \<Longrightarrow>
              \<exists>s. md5 s = k \<and> (malicious (c_result e) \<longrightarrow> \<not> quiet loadSignatures s)"
    by (auto simp: scanner_inv_def)
  have d: "distinct (map fst (signatures sc))" using rw by (rule inv_distinct)
  let ?tys = "if ty = ''all'' then map fst (signatures sc) else [ty]"
  let ?run = "scan_types (signatures sc) ?tys s"
  have rw': "rewind (fst ?run) = loadSignatures"
    using scan_types_rewind [OF d, of ?tys s] rw by simp
  have q: "snd ?run \<noteq> [] \<Longrightarrow> \<not> quiet loadSignatures s"
  proof
    assume "snd ?run \<noteq> []" and "quiet loadSignatures s"
    then have "quiet (signatures sc) s" using rw quiet_rewind [of "signatures sc" s] by simp
    from scan_types_quiet [OF d this, of ?tys] \<open>snd ?run \<noteq> []\<close> show False by simp
  qed
  show ?thesis
    unfolding scanner_inv_def
    using rw rw' ch q
    by (auto simp: scan_def Let_def split: option.splits prod.splits if_splits)
qed

lemma scanner_inv_run: "scanner_inv md5 sc \<Longrightarrow> scanner_inv md5 (scan_all md5 sc calls)"
  unfolding scan_all_def
  by (induction calls arbitrary: sc) (auto simp: scanner_inv_scan)

lemma hello_quiet: "quiet loadSignatures ''hello world''"
  by code_simp

lemma hello_world_clean:
  assumes "\<And>s. md5 s = md5 ''hello world'' \<Longrightarrow> s = ''hello world''"
  shows "\<not> malicious (snd (scan md5 (scan_all md5 PayloadScanner_new calls) ''hello world'' ty t))"
proof -
  let ?sc = "scan_all md5 PayloadScanner_new calls"
  have inv: "scanner_inv md5 ?sc" using scanner_inv_new by (rule scanner_inv_run)
  then have rw: "rewind (signatures ?sc) = loadSignatures" by (simp add: scanner_inv_def)
  have d: "distinct (map fst (signatures ?sc))" using rw by (rule inv_distinct)
  have q: "quiet (signatures ?sc) ''hello world''"
    using hello_quiet rw quiet_rewind [of "signatures ?sc" "''hello world''"] by simp
  have miss: "snd (scan_types (signatures ?sc) tys ''hello world'') = []" for tys
    using d q by (rule scan_types_quiet)
  have hit: "\<not> malicious (c_result e)" if "cache ?sc (md5 ''hello world'') = Some e" for e
  proof -
    from inv that obtain s where "md5 s = md5 ''hello world''"
      and m: "malicious (c_result e) \<longrightarrow> \<not> quiet loadSignatures s"
      unfolding scanner_inv_def by blast
    with assms have "s = ''hello world''" by blast
    with m hello_quiet show ?thesis by blast
  qed
  show ?thesis
    using hit miss [of "map fst (signatures ?sc)"] miss [of "[ty]"]
    by (auto simp: scan_def Let_def split: option.splits prod.splits if_splits
        dest: arg_cong [where f = snd])
qed

end
